theory Spec2Isabelle
  imports Complex_Main "HOL-Library.Word"
begin

unbundle bit_operations_syntax

section \<open>NGPC layered 2bpp export (MiscExportController.js)\<close>

text \<open>
  The exporter turns the frames of an RGBA image into per-layer 8x8 tiles at two bits
  per pixel, with one four-slot RGB444 palette per tile and layer. The model below
  follows \<^verbatim>\<open>src/piskel/MiscExportController.js\<close> function by function and keeps its
  names. What the model fixes:
  \<^item> \<^verbatim>\<open>ImageData.data\<close> is a \<^verbatim>\<open>Uint8ClampedArray\<close>: a list of 8-bit words, four per
    pixel, row-major.
  \<^item> A colour key is the string \<^verbatim>\<open>r + ',' + g + ',' + b + ',' + a\<close>. The code only
    compares keys for equality and splits them back into their four decimal numbers, so a
    key is modelled as the tuple of the four numbers.
  \<^item> JavaScript's 32-bit operators \<^verbatim>\<open>>>\<close>, \<^verbatim>\<open><<\<close>, \<^verbatim>\<open>&\<close>, \<^verbatim>\<open>|\<close> act on non-negative
    values far below \<open>2 ^ 31\<close> here; they are the bit operations of \<open>nat\<close>.
  \<^item> \<^verbatim>\<open>window.alert(...); return\<close> is an error value; the download at the end of
    \<^verbatim>\<open>onDownloadCFileClick_\<close> is the successful result.
\<close>

subsection \<open>Data\<close>

type_synonym pixels = "8 word list"
type_synonym colorKey = "nat \<times> nat \<times> nat \<times> nat"
type_synonym palette = "nat list"

record image =
  width :: nat
  height :: nat
  frames :: "pixels list"

text \<open>\<^verbatim>\<open>getFrameCount()\<close> and \<^verbatim>\<open>renderFrameAt(fi, true)...getImageData(...).data\<close>.\<close>

definition frameCount :: "image \<Rightarrow> nat" where
  "frameCount img = length (frames img)"

text \<open>
  The three alerts of the exporter. \<open>LayerOverflow tx ty frame colours maxLayers budget\<close>
  carries the numbers the message of \<^verbatim>\<open>buildLayeredPlan_\<close> prints, \<open>PaletteOverflow
  layer capacity\<close> those of the palette alert, \<open>InvalidDimensions width height\<close> those of
  the size alert.
\<close>

datatype error =
  InvalidDimensions nat nat
| LayerOverflow nat nat nat nat nat nat
| PaletteOverflow nat nat

record plan =
  layerCount :: nat
  groups :: "colorKey list list list list"

record layerState =
  bank :: "palette list"
  palIds :: "nat list list"
  tileData :: "nat list list list"

record encoded =
  outLayerCount :: nat
  perLayerPalettes :: "palette list list"
  perLayerPalIdMap :: "nat list list list"
  perLayerTiles :: "nat list list list list"

subsection \<open>Loops that can stop with an alert\<close>

text \<open>A \<^verbatim>\<open>for\<close> loop whose body may \<^verbatim>\<open>return\<close> out of the whole function.\<close>

fun forEach :: "('a \<Rightarrow> 's \<Rightarrow> error + 's) \<Rightarrow> 'a list \<Rightarrow> 's \<Rightarrow> error + 's" where
  "forEach body [] s = Inr s"
| "forEach body (x # xs) s =
     (case body x s of Inl e \<Rightarrow> Inl e | Inr s' \<Rightarrow> forEach body xs s')"

subsection \<open>Colour and formatting helpers\<close>

definition rgbaKey :: "nat \<Rightarrow> nat \<Rightarrow> nat \<Rightarrow> nat \<Rightarrow> colorKey" where
  "rgbaKey r g b a = (r, g, b, a)"

text \<open>\<^verbatim>\<open>rgbaKeySort_\<close>: the first non-zero difference of the four components, else 0.\<close>

fun rgbaKeySort :: "colorKey \<Rightarrow> colorKey \<Rightarrow> int" where
  "rgbaKeySort (r1, g1, b1, a1) (r2, g2, b2, a2) =
     (if int r1 - int r2 \<noteq> 0 then int r1 - int r2
      else if int g1 - int g2 \<noteq> 0 then int g1 - int g2
      else if int b1 - int b2 \<noteq> 0 then int b1 - int b2
      else if int a1 - int a2 \<noteq> 0 then int a1 - int a2
      else 0)"

text \<open>
  \<^verbatim>\<open>list.sort(this.rgbaKeySort_)\<close>. The comparator is a total order on keys, so every
  conforming \<^verbatim>\<open>Array.prototype.sort\<close> returns the same ascending list; it is written
  here as an insertion sort that calls the comparator.
\<close>

fun insertKey :: "colorKey \<Rightarrow> colorKey list \<Rightarrow> colorKey list" where
  "insertKey k [] = [k]"
| "insertKey k (x # xs) =
     (if rgbaKeySort k x \<le> 0 then k # x # xs else x # insertKey k xs)"

definition sortKeys :: "colorKey list \<Rightarrow> colorKey list" where
  "sortKeys xs = foldr insertKey xs []"

definition rgbToRgb444 :: "nat \<Rightarrow> nat \<Rightarrow> nat \<Rightarrow> nat" where
  "rgbToRgb444 r g b =
     (let r4 = drop_bit 4 r AND 0x0F;
          g4 = drop_bit 4 g AND 0x0F;
          b4 = drop_bit 4 b AND 0x0F
      in push_bit 8 b4 OR push_bit 4 g4 OR r4)"

text \<open>\<^verbatim>\<open>list.slice(start, end)\<close> for \<open>start \<le> end\<close>, clipped to the list.\<close>

definition slice :: "'a list \<Rightarrow> nat \<Rightarrow> nat \<Rightarrow> 'a list" where
  "slice xs start end = take (end - start) (drop start xs)"

subsection \<open>Pass 1: the grouping plan\<close>

text \<open>
  The body of the \<open>y\<close>/\<open>x\<close> loops of \<^verbatim>\<open>buildLayeredPlan_\<close> at byte offset \<open>ix\<close>: the
  object \<^verbatim>\<open>set\<close> is the set of keys already seen, \<^verbatim>\<open>list\<close> the keys in first-seen
  order.
\<close>

definition collectPixel :: "pixels \<Rightarrow> nat \<Rightarrow> colorKey set \<times> colorKey list \<Rightarrow> colorKey set \<times> colorKey list" where
  "collectPixel pix ix st =
     (let a = unat (pix ! (ix + 3)) in
      if a = 0 then st
      else
        let key = rgbaKey (unat (pix ! ix)) (unat (pix ! (ix + 1))) (unat (pix ! (ix + 2))) a
        in if key \<in> fst st then st else (insert key (fst st), snd st @ [key]))"

definition collectTile :: "pixels \<Rightarrow> nat \<Rightarrow> nat \<Rightarrow> nat \<Rightarrow> colorKey set \<times> colorKey list" where
  "collectTile pix w tx ty =
     fold (\<lambda>y. fold (\<lambda>x. collectPixel pix (((ty * 8 + y) * w + (tx * 8 + x)) * 4)) [0..<8])
       [0..<8] ({}, [])"

text \<open>The sorted list of the distinct opaque colours of one tile.\<close>

definition tileColors :: "pixels \<Rightarrow> nat \<Rightarrow> nat \<Rightarrow> nat \<Rightarrow> colorKey list" where
  "tileColors pix w tx ty = sortKeys (snd (collectTile pix w tx ty))"

text \<open>\<^verbatim>\<open>Math.ceil(n / 3)\<close> on a length.\<close>

definition ceil3 :: "nat \<Rightarrow> nat" where
  "ceil3 n = nat \<lceil>real n / 3\<rceil>"

text \<open>\<^verbatim>\<open>groups[l][fi][t] = v\<close> on the nested arrays.\<close>

definition setGroup :: "'a list list list \<Rightarrow> nat \<Rightarrow> nat \<Rightarrow> nat \<Rightarrow> 'a \<Rightarrow> 'a list list list" where
  "setGroup g l fi t v = g[l := (g ! l)[fi := (g ! l ! fi)[t := v]]]"

definition clearLayers :: "nat \<Rightarrow> nat \<Rightarrow> nat \<Rightarrow> colorKey list list list list \<Rightarrow> colorKey list list list list" where
  "clearLayers maxLayers fi tileId g = fold (\<lambda>l g'. setGroup g' l fi tileId []) [0..<maxLayers] g"

definition fillChunks :: "colorKey list \<Rightarrow> nat \<Rightarrow> nat \<Rightarrow> nat \<Rightarrow> colorKey list list list list \<Rightarrow> colorKey list list list list" where
  "fillChunks lst chunks fi tileId g =
     fold (\<lambda>c g'. let start = c * 3 in setGroup g' c fi tileId (slice lst start (start + 3)))
       [0..<chunks] g"

text \<open>The body of the \<open>tx\<close> loop; the state is \<open>(neededLayers, groups)\<close>.\<close>

definition planTile :: "image \<Rightarrow> nat \<Rightarrow> nat \<Rightarrow> nat \<Rightarrow> nat \<Rightarrow> nat
    \<Rightarrow> nat \<times> colorKey list list list list \<Rightarrow> error + nat \<times> colorKey list list list list" where
  "planTile img tilesX maxLayers fi2 ty tx st =
     (let tileId = ty * tilesX + tx;
          lst = tileColors (frames img ! fi2) (width img) tx ty;
          chunks = ceil3 (length lst)
      in if chunks > maxLayers
         then Inl (LayerOverflow tx ty fi2 (length lst) maxLayers (maxLayers * 3))
         else Inr (if chunks > fst st then chunks else fst st,
                   fillChunks lst chunks fi2 tileId (clearLayers maxLayers fi2 tileId (snd st))))"

text \<open>
  \<^verbatim>\<open>buildLayeredPlan_\<close>. \<^verbatim>\<open>groups.length = neededLayers\<close> truncates the array; the
  caller clamps \<open>maxLayers\<close> to \<open>1..8\<close>, and then \<open>neededLayers\<close> never exceeds the
  length.
\<close>

definition buildLayeredPlan :: "image \<Rightarrow> nat \<Rightarrow> nat \<Rightarrow> nat \<Rightarrow> error + plan" where
  "buildLayeredPlan img tilesX tilesY maxLayers =
     (let tilesPerFrame = tilesX * tilesY;
          groups0 = replicate maxLayers (replicate (frameCount img) (replicate tilesPerFrame []))
      in case forEach (\<lambda>fi2. forEach (\<lambda>ty. forEach (\<lambda>tx. planTile img tilesX maxLayers fi2 ty tx)
                         [0..<tilesX]) [0..<tilesY]) [0..<frameCount img] (1, groups0) of
           Inl e \<Rightarrow> Inl e
         | Inr (neededLayers, g) \<Rightarrow>
             Inr \<lparr>layerCount = neededLayers, groups = take neededLayers g\<rparr>)"

subsection \<open>Pass 2: palettes and tiles\<close>

definition buildTilePaletteRgb444 :: "colorKey list \<Rightarrow> palette" where
  "buildTilePaletteRgb444 groupKeys =
     fold (\<lambda>i pal.
             if i < length groupKeys
             then (case groupKeys ! i of (r, g, b, a) \<Rightarrow> pal[i + 1 := rgbToRgb444 r g b])
             else pal)
       [0..<3] [0, 0, 0, 0]"

text \<open>The comparison of \<^verbatim>\<open>findOrAddPalette_\<close>: equal in slots 0 to 3.\<close>

definition samePalette :: "palette \<Rightarrow> palette \<Rightarrow> bool" where
  "samePalette p pal4 \<longleftrightarrow> p ! 0 = pal4 ! 0 \<and> p ! 1 = pal4 ! 1 \<and> p ! 2 = pal4 ! 2 \<and> p ! 3 = pal4 ! 3"

text \<open>The linear search, from index \<open>i\<close> on; \<open>None\<close> when the loop runs out.\<close>

fun searchBank :: "palette list \<Rightarrow> palette \<Rightarrow> nat \<Rightarrow> nat option" where
  "searchBank [] pal4 i = None"
| "searchBank (p # ps) pal4 i = (if samePalette p pal4 then Some i else searchBank ps pal4 (Suc i))"

text \<open>\<^verbatim>\<open>findOrAddPalette_\<close>: the returned id (\<open>-1\<close> over the limit) and the bank afterwards.\<close>

definition findOrAddPalette :: "palette list \<Rightarrow> palette \<Rightarrow> nat \<Rightarrow> int \<times> palette list" where
  "findOrAddPalette bnk pal4 maxCount =
     (case searchBank bnk pal4 0 of
        Some i \<Rightarrow> (int i, bnk)
      | None \<Rightarrow>
          if length bnk \<ge> maxCount then (-1, bnk)
          else (int (length (bnk @ [pal4])) - 1, bnk @ [pal4]))"

text \<open>The key-to-index object \<^verbatim>\<open>map\<close> of \<^verbatim>\<open>encodeNgpcTile2bppLayered_\<close>.\<close>

definition buildIndexMap :: "colorKey list \<Rightarrow> (colorKey \<rightharpoonup> nat)" where
  "buildIndexMap groupKeys =
     fold (\<lambda>i m. m(groupKeys ! i \<mapsto> (i + 1) AND 3)) [0..<length groupKeys] Map.empty"

text \<open>The colour index \<^verbatim>\<open>ci\<close> of the pixel at byte offset \<open>idx\<close>.\<close>

definition pixelIndex :: "pixels \<Rightarrow> (colorKey \<rightharpoonup> nat) \<Rightarrow> nat \<Rightarrow> nat" where
  "pixelIndex pix m idx =
     (let r = unat (pix ! idx); g = unat (pix ! (idx + 1)); b = unat (pix ! (idx + 2));
          a = unat (pix ! (idx + 3))
      in if a \<noteq> 0
         then (case m (rgbaKey r g b a) of
                 Some v \<Rightarrow> if v \<noteq> 0 then v else 0
               | None \<Rightarrow> 0)
         else 0)"

text \<open>One output byte: the \<open>k\<close> loop of row \<open>y\<close> and block \<open>block\<close>.\<close>

definition packBlock :: "pixels \<Rightarrow> nat \<Rightarrow> nat \<Rightarrow> nat \<Rightarrow> (colorKey \<rightharpoonup> nat) \<Rightarrow> nat \<Rightarrow> nat \<Rightarrow> nat" where
  "packBlock pix imgW x0 y0 m y block =
     (let startX = (if block = 0 then 7 else 3);
          byteVal = fold (\<lambda>k byteVal.
                      let x = x0 + (startX - k);
                          idx = ((y0 + y) * imgW + x) * 4;
                          ci = pixelIndex pix m idx
                      in byteVal OR push_bit (k * 2) (ci AND 3))
                    [0..<4] 0
      in byteVal AND 0xFF)"

definition encodeNgpcTile2bppLayered :: "pixels \<Rightarrow> nat \<Rightarrow> nat \<Rightarrow> nat \<Rightarrow> colorKey list \<Rightarrow> nat list" where
  "encodeNgpcTile2bppLayered pix imgW x0 y0 groupKeys =
     (let m = buildIndexMap groupKeys
      in concat (map (\<lambda>y. map (\<lambda>block. packBlock pix imgW x0 y0 m y block) [0..<2]) [0..<8]))"

text \<open>\<^verbatim>\<open>a[fi][t] = v\<close> on a frame-by-tile array.\<close>

definition setCell :: "'a list list \<Rightarrow> nat \<Rightarrow> nat \<Rightarrow> 'a \<Rightarrow> 'a list list" where
  "setCell a fi t v = a[fi := (a ! fi)[t := v]]"

text \<open>The body of the \<open>tx\<close> loop of pass 2 for layer \<open>l\<close>.\<close>

definition encodeTileStep :: "image \<Rightarrow> plan \<Rightarrow> nat \<Rightarrow> nat \<Rightarrow> nat \<Rightarrow> nat \<Rightarrow> nat \<Rightarrow> nat
    \<Rightarrow> layerState \<Rightarrow> error + layerState" where
  "encodeTileStep img pl tilesX maxPals l fi ty tx st =
     (let tileId = ty * tilesX + tx;
          group = groups pl ! l ! fi ! tileId;
          palRgb444 = buildTilePaletteRgb444 group
      in case findOrAddPalette (bank st) palRgb444 maxPals of
           (palId, bank') \<Rightarrow>
             if palId < 0 then Inl (PaletteOverflow l maxPals)
             else Inr \<lparr>bank = bank',
                       palIds = setCell (palIds st) fi tileId (nat palId),
                       tileData = setCell (tileData st) fi tileId
                         (encodeNgpcTile2bppLayered (frames img ! fi) (width img) (tx * 8) (ty * 8) group)\<rparr>)"

text \<open>
  The body of the \<open>fi\<close> loop: the two rows of the frame are allocated
  (\<^verbatim>\<open>new Array(tilesPerFrame)\<close>; an unfilled slot is written \<open>0\<close> or \<open>[]\<close>), then the
  tiles are encoded.
\<close>

definition encodeFrame :: "image \<Rightarrow> plan \<Rightarrow> nat \<Rightarrow> nat \<Rightarrow> nat \<Rightarrow> nat \<Rightarrow> nat
    \<Rightarrow> layerState \<Rightarrow> error + layerState" where
  "encodeFrame img pl tilesX tilesY maxPals l fi st =
     forEach (\<lambda>ty. forEach (\<lambda>tx. encodeTileStep img pl tilesX maxPals l fi ty tx) [0..<tilesX])
       [0..<tilesY]
       (st\<lparr>palIds := (palIds st)[fi := replicate (tilesX * tilesY) 0],
           tileData := (tileData st)[fi := replicate (tilesX * tilesY) []]\<rparr>)"

text \<open>
  The body of the \<open>l\<close> loop: layer \<open>l\<close> gets an empty bank and two arrays of
  \<open>frameCount\<close> rows, its frames are encoded, and the three results become entry \<open>l\<close> of
  the output arrays.
\<close>

definition encodeLayer :: "image \<Rightarrow> plan \<Rightarrow> nat \<Rightarrow> nat \<Rightarrow> nat \<Rightarrow> nat \<Rightarrow> encoded \<Rightarrow> error + encoded" where
  "encodeLayer img pl tilesX tilesY maxPals l out =
     (case forEach (encodeFrame img pl tilesX tilesY maxPals l) [0..<frameCount img]
             \<lparr>bank = [], palIds = replicate (frameCount img) [],
              tileData = replicate (frameCount img) []\<rparr> of
        Inl e \<Rightarrow> Inl e
      | Inr st \<Rightarrow>
          Inr (out\<lparr>perLayerPalettes := perLayerPalettes out @ [bank st],
                   perLayerPalIdMap := perLayerPalIdMap out @ [palIds st],
                   perLayerTiles := perLayerTiles out @ [tileData st]\<rparr>))"

text \<open>
  \<^verbatim>\<open>onDownloadCFileClick_\<close> from the size check to the end of pass 2, for the limits
  \<open>MAX_LAYERS\<close> and \<open>MAX_PALS_PER_LAYER\<close> the controls resolve to.
\<close>

definition encode :: "image \<Rightarrow> nat \<Rightarrow> nat \<Rightarrow> error + encoded" where
  "encode img maxLayers maxPals =
     (if width img mod 8 \<noteq> 0 \<or> height img mod 8 \<noteq> 0
      then Inl (InvalidDimensions (width img) (height img))
      else
        let tilesX = width img div 8; tilesY = height img div 8
        in case buildLayeredPlan img tilesX tilesY maxLayers of
             Inl e \<Rightarrow> Inl e
           | Inr pl \<Rightarrow>
               forEach (encodeLayer img pl tilesX tilesY maxPals) [0..<layerCount pl]
                 \<lparr>outLayerCount = layerCount pl, perLayerPalettes = [],
                  perLayerPalIdMap = [], perLayerTiles = []\<rparr>)"

subsection \<open>Reading the output back\<close>

text \<open>
  What the hardware does with the output, in the words of the format: bits \<open>p\<close> and
  \<open>p + 1\<close> of a byte; the 2-bit index of the pixel at column \<open>x\<close>, row \<open>y\<close> of a 16-byte
  tile (row \<open>y\<close> is bytes \<open>2y\<close> and \<open>2y + 1\<close>, the first for columns 7 to 4, the second
  for columns 3 to 0, the rightmost column of a byte in its lowest two bits); one layer
  drawn over what is below it, index 0 leaving it untouched; and all layers drawn in
  order over the transparent background \<open>None\<close>.
\<close>

definition fieldAt :: "nat \<Rightarrow> nat \<Rightarrow> nat" where
  "fieldAt byte p = take_bit 2 (drop_bit p byte)"

definition tilePixel :: "nat list \<Rightarrow> nat \<Rightarrow> nat \<Rightarrow> nat" where
  "tilePixel tile x y =
     fieldAt (tile ! (2 * y + (if 4 \<le> x then 0 else 1))) (2 * ((if 4 \<le> x then 7 else 3) - x))"

definition drawLayer :: "encoded \<Rightarrow> nat \<Rightarrow> nat \<Rightarrow> nat \<Rightarrow> nat \<Rightarrow> nat \<Rightarrow> nat option \<Rightarrow> nat option" where
  "drawLayer out fi t x y l bg =
     (let ci = tilePixel (perLayerTiles out ! l ! fi ! t) x y
      in if ci = 0 then bg
         else Some (perLayerPalettes out ! l ! (perLayerPalIdMap out ! l ! fi ! t) ! ci))"

definition composite :: "encoded \<Rightarrow> nat \<Rightarrow> nat \<Rightarrow> nat \<Rightarrow> nat \<Rightarrow> nat option" where
  "composite out tilesX fi px py =
     fold (drawLayer out fi ((py div 8) * tilesX + px div 8) (px mod 8) (py mod 8))
       [0..<outLayerCount out] None"

subsection \<open>Pixels of the source image\<close>

text \<open>
  The byte offset of pixel \<open>(x, y)\<close> of tile \<open>(tx, ty)\<close>, the key and the alpha of the pixel
  at an offset, and the set of opaque colours of a tile.
\<close>

definition tileOffset :: "nat \<Rightarrow> nat \<Rightarrow> nat \<Rightarrow> nat \<Rightarrow> nat \<Rightarrow> nat" where
  "tileOffset w tx ty x y = ((ty * 8 + y) * w + (tx * 8 + x)) * 4"

definition pixelKey :: "pixels \<Rightarrow> nat \<Rightarrow> colorKey" where
  "pixelKey pix ix =
     rgbaKey (unat (pix ! ix)) (unat (pix ! (ix + 1))) (unat (pix ! (ix + 2))) (unat (pix ! (ix + 3)))"

definition pixelAlpha :: "pixels \<Rightarrow> nat \<Rightarrow> nat" where
  "pixelAlpha pix ix = unat (pix ! (ix + 3))"

definition opaqueColors :: "pixels \<Rightarrow> nat \<Rightarrow> nat \<Rightarrow> nat \<Rightarrow> colorKey set" where
  "opaqueColors pix w tx ty =
     {pixelKey pix (tileOffset w tx ty x y) | x y.
        x < 8 \<and> y < 8 \<and> pixelAlpha pix (tileOffset w tx ty x y) \<noteq> 0}"

text \<open>Every frame buffer holds \<open>width * height\<close> pixels of four bytes, as \<^verbatim>\<open>getImageData\<close> returns it.\<close>

definition wellFormed :: "image \<Rightarrow> bool" where
  "wellFormed img \<longleftrightarrow> list_all (\<lambda>pix. length pix = width img * height img * 4) (frames img)"

text \<open>The 8x8 tile at \<open>(x0, y0)\<close> lies inside a buffer of row length \<open>imgW\<close>.\<close>

definition tileInBounds :: "pixels \<Rightarrow> nat \<Rightarrow> nat \<Rightarrow> nat \<Rightarrow> bool" where
  "tileInBounds pix imgW x0 y0 \<longleftrightarrow> x0 + 8 \<le> imgW \<and> (y0 + 8) * imgW * 4 \<le> length pix"

text \<open>Slot \<open>i + 1\<close> of the palette of a group: the packed colour of key \<open>i\<close>, or 0 when the group has no key \<open>i\<close>.\<close>

definition paletteSlot :: "colorKey list \<Rightarrow> nat \<Rightarrow> nat" where
  "paletteSlot groupKeys i =
     (if i < length groupKeys then (case groupKeys ! i of (r, g, b, a) \<Rightarrow> rgbToRgb444 r g b) else 0)"

text \<open>Auxiliary notions for the proofs: the contribution of one pixel to the colour set, and the invariant of the \<^verbatim>\<open>set\<close>/\<^verbatim>\<open>list\<close> pair.\<close>

definition opaqueKey :: "pixels \<Rightarrow> nat \<Rightarrow> colorKey set" where
  "opaqueKey pix ix = (if pixelAlpha pix ix \<noteq> 0 then {pixelKey pix ix} else {})"

definition collected :: "colorKey set \<times> colorKey list \<Rightarrow> bool" where
  "collected st \<longleftrightarrow> fst st = set (snd st) \<and> distinct (snd st)"

text \<open>The lexicographic order of the four components of a key, as a predicate.\<close>

fun keyLess :: "colorKey \<Rightarrow> colorKey \<Rightarrow> bool" where
  "keyLess (r1, g1, b1, a1) (r2, g2, b2, a2) \<longleftrightarrow>
     r1 < r2 \<or> (r1 = r2 \<and> (g1 < g2 \<or> (g1 = g2 \<and> (b1 < b2 \<or> (b1 = b2 \<and> a1 < a2)))))"

text \<open>The shape of \<^verbatim>\<open>groups\<close>: \<open>L\<close> layers of \<open>F\<close> frames of \<open>T\<close> tiles.\<close>

definition groupsShape :: "nat \<Rightarrow> nat \<Rightarrow> nat \<Rightarrow> 'a list list list \<Rightarrow> bool" where
  "groupsShape L F T g \<longleftrightarrow>
     length g = L \<and> (\<forall>l < L. length (g ! l) = F \<and> (\<forall>f < F. length (g ! l ! f) = T))"

text \<open>The sorted colour list of tile \<open>(tx, ty)\<close> of frame \<open>fi\<close>.\<close>

definition colorsAt :: "image \<Rightarrow> nat \<Rightarrow> nat \<Rightarrow> nat \<Rightarrow> colorKey list" where
  "colorsAt img fi ty tx = tileColors (frames img ! fi) (width img) tx ty"

text \<open>
  The invariant of the loops of \<^verbatim>\<open>buildLayeredPlan_\<close> once the tiles in \<open>D\<close> are handled:
  the arrays keep their shape, \<open>neededLayers\<close> is at least 1 and is 1 or the chunk count of
  a handled tile, and the cells of every handled tile hold the slices of its colour list.
\<close>

definition planInv :: "image \<Rightarrow> nat \<Rightarrow> nat \<Rightarrow> nat \<Rightarrow> (nat \<times> nat \<times> nat) set
    \<Rightarrow> nat \<times> colorKey list list list list \<Rightarrow> bool" where
  "planInv img TX TY maxL D st \<longleftrightarrow>
     groupsShape maxL (frameCount img) (TX * TY) (snd st)
     \<and> 1 \<le> fst st \<and> fst st \<le> max 1 maxL
     \<and> D \<subseteq> {..<frameCount img} \<times> {..<TY} \<times> {..<TX}
     \<and> (\<forall>fi ty tx. (fi, ty, tx) \<in> D \<longrightarrow>
           ceil3 (length (colorsAt img fi ty tx)) \<le> fst st
           \<and> (\<forall>l < maxL. snd st ! l ! fi ! (ty * TX + tx)
                  = slice (colorsAt img fi ty tx) (l * 3) (l * 3 + 3)))
     \<and> (fst st = 1 \<or> (\<exists>fi ty tx. (fi, ty, tx) \<in> D \<and> ceil3 (length (colorsAt img fi ty tx)) = fst st))"

text \<open>The tiles of an image in the order the loops visit them: frame, then row, then column.\<close>

definition allTiles :: "image \<Rightarrow> nat \<Rightarrow> nat \<Rightarrow> (nat \<times> nat \<times> nat) list" where
  "allTiles img TX TY = List.product [0..<frameCount img] (List.product [0..<TY] [0..<TX])"

text \<open>Tile \<open>(fi, ty, tx)\<close> has more colours than \<open>maxL\<close> layers hold.\<close>

definition overBudget :: "image \<Rightarrow> nat \<Rightarrow> nat \<times> nat \<times> nat \<Rightarrow> bool" where
  "overBudget img maxL tile = (case tile of (fi, ty, tx) \<Rightarrow> ceil3 (length (colorsAt img fi ty tx)) > maxL)"

text \<open>
  What pass 2 has established for tile \<open>(fi, ty, tx)\<close> of layer \<open>l\<close>: its palette id
  points into the bank at a palette equal to the one built from its group, and its bytes
  are the encoding of its pixels under its group.
\<close>

definition tileFacts :: "image \<Rightarrow> plan \<Rightarrow> nat \<Rightarrow> nat \<Rightarrow> layerState \<Rightarrow> nat \<Rightarrow> nat \<Rightarrow> nat \<Rightarrow> bool" where
  "tileFacts img pl TX l st fi ty tx \<longleftrightarrow>
     length (palIds st ! fi) = TX * (height img div 8) \<and> length (tileData st ! fi) = TX * (height img div 8)
     \<and> palIds st ! fi ! (ty * TX + tx) < length (bank st)
     \<and> samePalette (bank st ! (palIds st ! fi ! (ty * TX + tx)))
          (buildTilePaletteRgb444 (groups pl ! l ! fi ! (ty * TX + tx)))
     \<and> tileData st ! fi ! (ty * TX + tx) =
          encodeNgpcTile2bppLayered (frames img ! fi) (width img) (tx * 8) (ty * 8)
            (groups pl ! l ! fi ! (ty * TX + tx))"

text \<open>The invariant of the loops of one layer once the tiles in \<open>D\<close> are encoded.\<close>

definition layerInv :: "image \<Rightarrow> plan \<Rightarrow> nat \<Rightarrow> nat \<Rightarrow> nat \<Rightarrow> (nat \<times> nat \<times> nat) set \<Rightarrow> layerState \<Rightarrow> bool" where
  "layerInv img pl TX MP l D st \<longleftrightarrow>
     length (palIds st) = frameCount img \<and> length (tileData st) = frameCount img
     \<and> length (bank st) \<le> MP
     \<and> D \<subseteq> {..<frameCount img} \<times> {..<height img div 8} \<times> {..<TX}
     \<and> (\<forall>fi ty tx. (fi, ty, tx) \<in> D \<longrightarrow> tileFacts img pl TX l st fi ty tx)"

text \<open>The three output arrays of layer \<open>l\<close>, as one record.\<close>

definition layerOf :: "encoded \<Rightarrow> nat \<Rightarrow> layerState" where
  "layerOf out l = \<lparr>bank = perLayerPalettes out ! l, palIds = perLayerPalIdMap out ! l,
                    tileData = perLayerTiles out ! l\<rparr>"

text \<open>All tiles of an image, as a set of \<open>(frame, row, column)\<close>.\<close>

definition tileSet :: "image \<Rightarrow> nat \<Rightarrow> (nat \<times> nat \<times> nat) set" where
  "tileSet img TX = {..<frameCount img} \<times> {..<height img div 8} \<times> {..<TX}"

text \<open>The invariant of the layer loop after \<open>n\<close> layers.\<close>

definition outInv :: "image \<Rightarrow> plan \<Rightarrow> nat \<Rightarrow> nat \<Rightarrow> nat \<Rightarrow> encoded \<Rightarrow> bool" where
  "outInv img pl TX MP n out \<longleftrightarrow>
     outLayerCount out = layerCount pl
     \<and> length (perLayerPalettes out) = n \<and> length (perLayerPalIdMap out) = n
     \<and> length (perLayerTiles out) = n
     \<and> (\<forall>l < n. layerInv img pl TX MP l (tileSet img TX) (layerOf out l))"

text \<open>The byte the \<open>k\<close> loop builds from the four indices it meets, \<open>k = 0\<close> first.\<close>

definition byteOfFields :: "nat \<Rightarrow> nat \<Rightarrow> nat \<Rightarrow> nat \<Rightarrow> nat" where
  "byteOfFields c0 c1 c2 c3 =
     ((((0 OR push_bit (0 * 2) (c0 AND 3)) OR push_bit (1 * 2) (c1 AND 3))
        OR push_bit (2 * 2) (c2 AND 3)) OR push_bit (3 * 2) (c3 AND 3)) AND 0xFF"

subsection \<open>Example images\<close>

text \<open>
  An 8x8 frame whose columns 0 to 3 are transparent and whose columns 4, 5, 6 and 7 hold
  the opaque colours \<open>(16,0,0,255)\<close>, \<open>(32,0,0,255)\<close>, \<open>(48,0,0,255)\<close> and \<open>(64,0,0,255)\<close>;
  a fully transparent 8x8 frame; an image of three frames (the first, the blank one, the
  first again) and an image of the blank frame alone.
\<close>

definition demoByte :: "nat \<Rightarrow> 8 word" where
  "demoByte i =
     (let col = (i div 4) mod 8; ch = i mod 4
      in if col < 4 then 0
         else if ch = 0 then of_nat (16 * (col - 3))
         else if ch = 3 then 255
         else 0)"

definition demoPixels :: pixels where
  "demoPixels = map demoByte [0..<256]"

definition blankPixels :: pixels where
  "blankPixels = replicate 256 0"

definition demoImage :: image where
  "demoImage = \<lparr>width = 8, height = 8, frames = [demoPixels, blankPixels, demoPixels]\<rparr>"

definition blankImage :: image where
  "blankImage = \<lparr>width = 8, height = 8, frames = [blankPixels]\<rparr>"

text \<open>The plan and the output of the three-frame example, and the output after its first layer.\<close>

definition demoPlan :: plan where
  "demoPlan =
     \<lparr>layerCount = 2,
      groups = [[[[(16, 0, 0, 255), (32, 0, 0, 255), (48, 0, 0, 255)]], [[]],
                 [[(16, 0, 0, 255), (32, 0, 0, 255), (48, 0, 0, 255)]]],
                [[[(64, 0, 0, 255)]], [[]], [[(64, 0, 0, 255)]]]]\<rparr>"

definition demoOut0 :: encoded where
  "demoOut0 =
     \<lparr>outLayerCount = 2,
      perLayerPalettes = [[[0, 1, 2, 3], [0, 0, 0, 0]]],
      perLayerPalIdMap = [[[0], [1], [0]]],
      perLayerTiles =
        [[[[108, 0, 108, 0, 108, 0, 108, 0, 108, 0, 108, 0, 108, 0, 108, 0]],
          [[0, 0, 0, 0, 0, 0, 0, 0, 0, 0, 0, 0, 0, 0, 0, 0]],
          [[108, 0, 108, 0, 108, 0, 108, 0, 108, 0, 108, 0, 108, 0, 108, 0]]]]\<rparr>"

definition demoOut :: encoded where
  "demoOut =
     \<lparr>outLayerCount = 2,
      perLayerPalettes = [[[0, 1, 2, 3], [0, 0, 0, 0]], [[0, 4, 0, 0], [0, 0, 0, 0]]],
      perLayerPalIdMap = [[[0], [1], [0]], [[0], [1], [0]]],
      perLayerTiles =
        [[[[108, 0, 108, 0, 108, 0, 108, 0, 108, 0, 108, 0, 108, 0, 108, 0]],
          [[0, 0, 0, 0, 0, 0, 0, 0, 0, 0, 0, 0, 0, 0, 0, 0]],
          [[108, 0, 108, 0, 108, 0, 108, 0, 108, 0, 108, 0, 108, 0, 108, 0]]],
         [[[1, 0, 1, 0, 1, 0, 1, 0, 1, 0, 1, 0, 1, 0, 1, 0]],
          [[0, 0, 0, 0, 0, 0, 0, 0, 0, 0, 0, 0, 0, 0, 0, 0]],
          [[1, 0, 1, 0, 1, 0, 1, 0, 1, 0, 1, 0, 1, 0, 1, 0]]]]\<rparr>"

subsection \<open>Counting tiles and colours\<close>

text \<open>\<^verbatim>\<open>tilesX = width / 8\<close> and \<^verbatim>\<open>tilesY = height / 8\<close>, for sizes that passed the size check.\<close>

definition tilesX :: "image \<Rightarrow> nat" where
  "tilesX img = width img div 8"

definition tilesY :: "image \<Rightarrow> nat" where
  "tilesY img = height img div 8"

text \<open>The number of distinct opaque colours of tile \<open>(tx, ty)\<close> of frame \<open>fi\<close>.\<close>

definition colorCount :: "image \<Rightarrow> nat \<Rightarrow> nat \<Rightarrow> nat \<Rightarrow> nat" where
  "colorCount img fi ty tx = card (opaqueColors (frames img ! fi) (width img) tx ty)"

text \<open>
  The two bits \<^verbatim>\<open>ci & 3\<close> the encoder computes for the pixel in column \<open>x\<close>, row \<open>y\<close> of
  the tile at \<open>(x0, y0)\<close> under the group \<open>groupKeys\<close>.
\<close>

definition indexAt :: "pixels \<Rightarrow> nat \<Rightarrow> nat \<Rightarrow> nat \<Rightarrow> colorKey list \<Rightarrow> nat \<Rightarrow> nat \<Rightarrow> nat" where
  "indexAt pix imgW x0 y0 groupKeys x y =
     pixelIndex pix (buildIndexMap groupKeys) (((y0 + y) * imgW + (x0 + x)) * 4) AND 3"

text \<open>An 8x8 frame whose columns 4 to 7 hold the colour \<open>(255,128,16,255)\<close> and whose columns 0 to 3 are transparent.\<close>

definition stripeByte :: "nat \<Rightarrow> 8 word" where
  "stripeByte i =
     (let col = (i div 4) mod 8; ch = i mod 4
      in if col < 4 then 0
         else if ch = 0 then 255 else if ch = 1 then 128 else if ch = 2 then 16 else 255)"

definition stripePixels :: pixels where
  "stripePixels = map stripeByte [0..<256]"

text \<open>An 8x8 frame whose columns 0 to 3 hold \<open>(16,0,0,255)\<close> and whose columns 4 to 7 hold \<open>(17,0,0,128)\<close>.\<close>

definition shadeByte :: "nat \<Rightarrow> 8 word" where
  "shadeByte i =
     (let col = (i div 4) mod 8; ch = i mod 4
      in if col < 4 then (if ch = 0 then 16 else if ch = 3 then 255 else 0)
         else (if ch = 0 then 17 else if ch = 3 then 128 else 0))"

definition shadePixels :: pixels where
  "shadePixels = map shadeByte [0..<256]"

section \<open>Arithmetic of the helpers\<close>

lemma ceil3_code [code]: "ceil3 n = (n + 2) div 3"
proof -
  have "\<lceil>real n / 3\<rceil> = \<lceil>real_of_int (int n) / real_of_int 3\<rceil>" by simp
  also have "\<dots> = - (- int n div 3)" by (rule ceiling_divide_eq_div)
  also have "\<dots> = int ((n + 2) div 3)" by (simp add: zdiv_int)
  finally show ?thesis by (simp add: ceil3_def)
qed

lemma and15: "(x::nat) AND 15 = take_bit 4 x"
  by (simp add: take_bit_eq_mask mask_eq_exp_minus_1)

lemma and3: "(x::nat) AND 3 = take_bit 2 x"
  by (simp add: take_bit_eq_mask mask_eq_exp_minus_1)

lemma and255: "(x::nat) AND 255 = take_bit 8 x"
  by (simp add: take_bit_eq_mask mask_eq_exp_minus_1)

lemma and3_small: "x \<le> 3 \<Longrightarrow> (x::nat) AND 3 = x"
  by (simp add: and3 take_bit_nat_eq_self_iff)

lemma upt8: "[0..<8] = [0, 1, 2, 3, 4, 5, 6, 7]" by code_simp
lemma upt4: "[0..<4] = [0, 1, 2, 3]" by code_simp
lemma upt3: "[0..<3] = [0, 1, 2]" by code_simp
lemma upt2: "[0..<2] = [0, 1]" by code_simp

subsection \<open>Palette\<close>

lemma buildTilePaletteRgb444_slots:
  "buildTilePaletteRgb444 gk = [0, paletteSlot gk 0, paletteSlot gk 1, paletteSlot gk 2]"
  by (simp add: buildTilePaletteRgb444_def upt3 paletteSlot_def numeral_2_eq_2 numeral_3_eq_3
      split: prod.splits)

subsection \<open>Index map\<close>

lemma indexMap_fold_None:
  "n \<le> length gk \<Longrightarrow> k \<notin> set (take n gk) \<Longrightarrow>
   fold (\<lambda>i m. m(gk ! i \<mapsto> (i + 1) AND 3)) [0..<n] Map.empty k = None"
proof (induction n)
  case 0
  then show ?case by simp
next
  case (Suc n)
  then have "k \<notin> set (take n gk)" and "gk ! n \<noteq> k"
    by (auto simp: take_Suc_conv_app_nth)
  with Suc show ?case by simp
qed

lemma indexMap_fold_nth:
  "n \<le> length gk \<Longrightarrow> distinct gk \<Longrightarrow> i < n \<Longrightarrow>
   fold (\<lambda>i m. m(gk ! i \<mapsto> (i + 1) AND 3)) [0..<n] Map.empty (gk ! i) = Some ((i + 1) AND 3)"
proof (induction n)
  case 0
  then show ?case by simp
next
  case (Suc n)
  show ?case
  proof (cases "i = n")
    case True
    then show ?thesis by simp
  next
    case False
    with Suc.prems have "i < n" "gk ! n \<noteq> gk ! i"
      by (auto simp: nth_eq_iff_index_eq)
    with Suc show ?thesis by simp
  qed
qed

lemma buildIndexMap_None: "k \<notin> set gk \<Longrightarrow> buildIndexMap gk k = None"
  unfolding buildIndexMap_def by (rule indexMap_fold_None) simp_all

lemma buildIndexMap_nth:
  "distinct gk \<Longrightarrow> i < length gk \<Longrightarrow> buildIndexMap gk (gk ! i) = Some ((i + 1) AND 3)"
  unfolding buildIndexMap_def by (rule indexMap_fold_nth) simp_all

subsection \<open>Bank search\<close>

lemma searchBank_None: "searchBank ps pal i = None \<longleftrightarrow> (\<forall>p \<in> set ps. \<not> samePalette p pal)"
  by (induction ps arbitrary: i) auto

lemma searchBank_Some:
  "searchBank ps pal i = Some j \<Longrightarrow>
   i \<le> j \<and> j - i < length ps \<and> samePalette (ps ! (j - i)) pal \<and> (\<forall>k < j - i. \<not> samePalette (ps ! k) pal)"
proof (induction ps arbitrary: i)
  case Nil
  then show ?case by simp
next
  case (Cons p ps)
  show ?case
  proof (cases "samePalette p pal")
    case True
    with Cons.prems show ?thesis by simp
  next
    case False
    with Cons.prems have "searchBank ps pal (Suc i) = Some j" by simp
    from Cons.IH[OF this]
    have le: "Suc i \<le> j" and len: "j - Suc i < length ps"
      and same: "samePalette (ps ! (j - Suc i)) pal"
      and first: "\<forall>k < j - Suc i. \<not> samePalette (ps ! k) pal"
      by auto
    from le have eq: "j - i = Suc (j - Suc i)" by simp
    have "\<forall>k < j - i. \<not> samePalette ((p # ps) ! k) pal"
    proof (intro allI impI)
      fix k assume "k < j - i"
      with eq first False show "\<not> samePalette ((p # ps) ! k) pal"
        by (cases k) auto
    qed
    with le len same eq show ?thesis by simp

  qed
qed

lemma rgbToRgb444_arith:
  "rgbToRgb444 r g b = (b div 16 mod 16) * 256 + (g div 16 mod 16) * 16 + r div 16 mod 16"
proof -
  let ?r = "take_bit 4 (drop_bit 4 r)" and ?g = "take_bit 4 (drop_bit 4 g)"
    and ?b = "take_bit 4 (drop_bit 4 b)"
  have "rgbToRgb444 r g b = push_bit 8 ?b OR push_bit 4 ?g OR ?r"
    by (simp add: rgbToRgb444_def and15)
  also have "\<dots> = (push_bit 8 ?b + push_bit 4 ?g) + ?r"
  proof -
    have "push_bit 8 ?b + push_bit 4 ?g = push_bit 8 ?b OR push_bit 4 ?g"
      by (rule disjunctive_add) (auto simp add: bit_simps)
    moreover have "(push_bit 8 ?b OR push_bit 4 ?g) + ?r = (push_bit 8 ?b OR push_bit 4 ?g) OR ?r"
      by (rule disjunctive_add) (auto simp add: bit_simps)
    ultimately show ?thesis by (simp add: or.assoc)
  qed
  finally show ?thesis
    by (simp add: take_bit_eq_mod push_bit_eq_mult drop_bit_eq_div)
qed

lemma rgbToRgb444_bound: "rgbToRgb444 r g b < 4096"
proof -
  have "b div 16 mod 16 \<le> 15" "g div 16 mod 16 \<le> 15" "r div 16 mod 16 \<le> 15"
    by simp_all
  then show ?thesis unfolding rgbToRgb444_arith by linarith
qed

section \<open>Palette construction\<close>

text \<open>
  C6. For every group, \<^verbatim>\<open>buildTilePaletteRgb444_\<close> returns four slots; slot 0 is 0; slot
  \<open>i + 1\<close>, for \<open>i\<close> below 3, is the RGB444 packing of key \<open>i\<close> of the group when the group
  has such a key and 0 otherwise (alpha is not used). The packing of \<open>(r, g, b)\<close> is
  \<open>(b >> 4 & 0xF) << 8 | (g >> 4 & 0xF) << 4 | (r >> 4 & 0xF)\<close>: the value
  \<open>256 * B + 16 * G + R\<close> of the three nibbles taken from bits 4 to 7 of each channel, which
  fits in 12 bits.
\<close>

theorem palette_construction:
  "length (buildTilePaletteRgb444 gk) = 4
   \<and> buildTilePaletteRgb444 gk ! 0 = 0
   \<and> (\<forall>i < 3. buildTilePaletteRgb444 gk ! (i + 1) =
         (if i < length gk then (case gk ! i of (r, g, b, a) \<Rightarrow> rgbToRgb444 r g b) else 0))
   \<and> rgbToRgb444 r g b =
         push_bit 8 (drop_bit 4 b AND 0xF) OR push_bit 4 (drop_bit 4 g AND 0xF) OR (drop_bit 4 r AND 0xF)
   \<and> rgbToRgb444 r g b = (b div 16 mod 16) * 256 + (g div 16 mod 16) * 16 + r div 16 mod 16
   \<and> rgbToRgb444 r g b < 2 ^ 12"
proof -
  have slots: "\<forall>i < 3. buildTilePaletteRgb444 gk ! (i + 1) =
         (if i < length gk then (case gk ! i of (r, g, b, a) \<Rightarrow> rgbToRgb444 r g b) else 0)"
  proof (intro allI impI)
    fix i :: nat assume "i < 3"
    then consider "i = 0" | "i = 1" | "i = 2" by linarith
    then show "buildTilePaletteRgb444 gk ! (i + 1) =
         (if i < length gk then (case gk ! i of (r, g, b, a) \<Rightarrow> rgbToRgb444 r g b) else 0)"
      by cases (simp_all add: buildTilePaletteRgb444_slots paletteSlot_def numeral_2_eq_2)
  qed
  have pack: "rgbToRgb444 r g b =
         push_bit 8 (drop_bit 4 b AND 0xF) OR push_bit 4 (drop_bit 4 g AND 0xF) OR (drop_bit 4 r AND 0xF)"
    by (simp add: rgbToRgb444_def)
  from slots pack rgbToRgb444_bound[of r g b] show ?thesis
    by (simp add: buildTilePaletteRgb444_slots rgbToRgb444_arith)
qed

theorem palette_construction_witness:
  "(1::nat) < 3
   \<and> buildTilePaletteRgb444 [(255, 128, 16, 255), (17, 34, 51, 7)] ! (1 + 1) = 801
   \<and> buildTilePaletteRgb444 [(255, 128, 16, 255), (17, 34, 51, 7)] ! (2 + 1) = 0
   \<and> rgbToRgb444 255 128 16 = 399"
proof -
  let ?gk = "[(255, 128, 16, 255), (17, 34, 51, 7)] :: colorKey list"
  note t = palette_construction [of ?gk 255 128 16]
  from t have slots: "\<forall>i < 3. buildTilePaletteRgb444 ?gk ! (i + 1) =
         (if i < length ?gk then (case ?gk ! i of (r, g, b, a) \<Rightarrow> rgbToRgb444 r g b) else 0)"
    by (elim conjE)
  from t have pack: "rgbToRgb444 255 128 16 = (16 div 16 mod 16) * 256 + (128 div 16 mod 16) * 16 + 255 div 16 mod 16"
    by (elim conjE)
  from slots [rule_format, of 1] slots [rule_format, of 2] pack show ?thesis
    by (simp add: rgbToRgb444_arith)
qed

section \<open>Loops\<close>

lemma forEach_append:
  "forEach body (xs @ ys) s = (case forEach body xs s of Inl e \<Rightarrow> Inl e | Inr t \<Rightarrow> forEach body ys t)"
  by (induction xs arbitrary: s) (auto split: sum.splits)

lemma forEach_map: "forEach body (map f xs) s = forEach (\<lambda>x. body (f x)) xs s"
  by (induction xs arbitrary: s) (auto split: sum.splits)

text \<open>Two nested loops run their body over the pairs in row-major order.\<close>

lemma forEach_product:
  "forEach (\<lambda>a. forEach (body a) ys) xs s = forEach (\<lambda>(a, b). body a b) (List.product xs ys) s"
proof (induction xs arbitrary: s)
  case Nil
  then show ?case by simp
next
  case (Cons a xs)
  then show ?case
    by (simp add: forEach_append forEach_map split: sum.splits)
qed

text \<open>
  An invariant over the set of elements already handled: it holds at the end of a loop
  that returns when every body that returns extends it by its element.
\<close>

lemma forEach_invariant_aux:
  assumes "forEach body xs s = Inr s'" and "Inv D s" and "set xs \<subseteq> A"
    and step: "\<And>x D s t. x \<in> A \<Longrightarrow> Inv D s \<Longrightarrow> body x s = Inr t \<Longrightarrow> Inv (insert x D) t"
  shows "Inv (D \<union> set xs) s'"
  using assms(1-3)
proof (induction xs arbitrary: s D)
  case Nil
  then show ?case by simp
next
  case (Cons x xs)
  from Cons.prems(1) obtain t where t: "body x s = Inr t" and rest: "forEach body xs t = Inr s'"
    by (auto split: sum.splits)
  from Cons.prems(3) have "x \<in> A" "set xs \<subseteq> A" by auto
  from step[OF \<open>x \<in> A\<close> Cons.prems(2) t] have "Inv (insert x D) t" .
  from Cons.IH[OF rest this \<open>set xs \<subseteq> A\<close>] show ?case by simp
qed

lemma forEach_invariant:
  assumes "forEach body xs s = Inr s'" and "Inv {} s"
    and "\<And>x D s t. x \<in> set xs \<Longrightarrow> Inv D s \<Longrightarrow> body x s = Inr t \<Longrightarrow> Inv (insert x D) t"
  shows "Inv (set xs) s'"
  using forEach_invariant_aux[where Inv = Inv and A = "set xs" and D = "{}", OF assms(1) assms(2) subset_refl assms(3)]
  by simp

text \<open>A loop whose body fails on an element whatever the state fails exactly when it meets such an element, with the error of the first one.\<close>

lemma forEach_fails_iff:
  assumes "\<And>x s. x \<in> set xs \<Longrightarrow> (\<exists>e. body x s = Inl e) \<longleftrightarrow> bad x"
  shows "(\<exists>e. forEach body xs s = Inl e) \<longleftrightarrow> (\<exists>x \<in> set xs. bad x)"
  using assms
proof (induction xs arbitrary: s)
  case Nil
  then show ?case by simp
next
  case (Cons x xs)
  show ?case
  proof (cases "body x s")
    case (Inl e)
    with Cons.prems[of x s] show ?thesis by auto
  next
    case (Inr t)
    with Cons.prems[of x s] have "\<not> bad x" by auto
    moreover have "(\<exists>e. forEach body xs t = Inl e) \<longleftrightarrow> (\<exists>x \<in> set xs. bad x)"
      by (rule Cons.IH) (simp add: Cons.prems)
    ultimately show ?thesis using Inr by simp
  qed
qed


section \<open>The colours of a tile\<close>


lemma collectPixel_step:
  assumes "collected st"
  shows "collected (collectPixel pix ix st)"
    and "set (snd (collectPixel pix ix st)) = set (snd st) \<union> opaqueKey pix ix"
proof -
  obtain seen lst where st: "st = (seen, lst)" by (cases st)
  with assms have inv: "seen = set lst" "distinct lst" by (simp_all add: collected_def)
  show "collected (collectPixel pix ix st)"
    using inv unfolding st collected_def collectPixel_def Let_def by simp
  show "set (snd (collectPixel pix ix st)) = set (snd st) \<union> opaqueKey pix ix"
    using inv unfolding st collectPixel_def Let_def opaqueKey_def pixelAlpha_def pixelKey_def
    by (simp add: insert_absorb)
qed

lemma collect_row:
  assumes "collected st"
  shows "collected (fold (\<lambda>x. collectPixel pix (f x)) xs st)
    \<and> set (snd (fold (\<lambda>x. collectPixel pix (f x)) xs st)) =
        set (snd st) \<union> (\<Union>x \<in> set xs. opaqueKey pix (f x))"
  using assms
proof (induction xs arbitrary: st)
  case Nil
  then show ?case by simp
next
  case (Cons x xs)
  note a = collectPixel_step(1)[OF Cons.prems, of pix "f x"]
  note c = collectPixel_step(2)[OF Cons.prems, of pix "f x"]
  from Cons.IH[OF a] have
    "collected (fold (\<lambda>x. collectPixel pix (f x)) xs (collectPixel pix (f x) st))"
    and "set (snd (fold (\<lambda>x. collectPixel pix (f x)) xs (collectPixel pix (f x) st))) =
      (set (snd st) \<union> opaqueKey pix (f x)) \<union> (\<Union>x \<in> set xs. opaqueKey pix (f x))"
    by (simp_all add: c)
  then show ?case by (simp add: Un_assoc)
qed

lemma collect_rows:
  assumes "collected st"
  shows "collected (fold (\<lambda>y. fold (\<lambda>x. collectPixel pix (f y x)) xs) ys st)
    \<and> set (snd (fold (\<lambda>y. fold (\<lambda>x. collectPixel pix (f y x)) xs) ys st)) =
        set (snd st) \<union> (\<Union>y \<in> set ys. \<Union>x \<in> set xs. opaqueKey pix (f y x))"
  using assms
proof (induction ys arbitrary: st)
  case Nil
  then show ?case by simp
next
  case (Cons y ys)
  let ?st = "fold (\<lambda>x. collectPixel pix (f y x)) xs st"
  from collect_row[OF Cons.prems, of pix "f y" xs]
  have a: "collected ?st"
    and c: "set (snd ?st) = set (snd st) \<union> (\<Union>x \<in> set xs. opaqueKey pix (f y x))"
    by simp_all
  from Cons.IH[OF a] have
    "collected (fold (\<lambda>y. fold (\<lambda>x. collectPixel pix (f y x)) xs) ys ?st)"
    and "set (snd (fold (\<lambda>y. fold (\<lambda>x. collectPixel pix (f y x)) xs) ys ?st)) =
      (set (snd st) \<union> (\<Union>x \<in> set xs. opaqueKey pix (f y x)))
        \<union> (\<Union>y \<in> set ys. \<Union>x \<in> set xs. opaqueKey pix (f y x))"
    by (simp_all add: c)
  then show ?case by (simp add: Un_assoc)
qed

lemma opaqueColors_Union:
  "opaqueColors pix w tx ty = (\<Union>y \<in> {0..<8}. \<Union>x \<in> {0..<8}. opaqueKey pix (tileOffset w tx ty x y))"
proof (rule set_eqI)
  fix k
  have "k \<in> opaqueColors pix w tx ty \<longleftrightarrow>
      (\<exists>x y. k = pixelKey pix (tileOffset w tx ty x y) \<and> x < 8 \<and> y < 8
         \<and> pixelAlpha pix (tileOffset w tx ty x y) \<noteq> 0)"
    unfolding opaqueColors_def by simp
  moreover have "k \<in> (\<Union>y \<in> {0..<8}. \<Union>x \<in> {0..<8}. opaqueKey pix (tileOffset w tx ty x y)) \<longleftrightarrow>
      (\<exists>y < 8. \<exists>x < 8. pixelAlpha pix (tileOffset w tx ty x y) \<noteq> 0
         \<and> k = pixelKey pix (tileOffset w tx ty x y))"
    unfolding opaqueKey_def by (simp add: Bex_def)
  ultimately show "k \<in> opaqueColors pix w tx ty \<longleftrightarrow>
      k \<in> (\<Union>y \<in> {0..<8}. \<Union>x \<in> {0..<8}. opaqueKey pix (tileOffset w tx ty x y))"
    by blast
qed

lemma collectTile_props:
  "set (snd (collectTile pix w tx ty)) = opaqueColors pix w tx ty
   \<and> distinct (snd (collectTile pix w tx ty))"
proof -
  have "collected ({}, [])" by (simp add: collected_def)
  from collect_rows[OF this, of pix "\<lambda>y x. tileOffset w tx ty x y" "[0..<8]" "[0..<8]"]
  have "collected (collectTile pix w tx ty)"
    and "set (snd (collectTile pix w tx ty))
       = (\<Union>y \<in> {0..<8}. \<Union>x \<in> {0..<8}. opaqueKey pix (tileOffset w tx ty x y))"
    unfolding collectTile_def tileOffset_def by simp_all
  then show ?thesis by (simp add: opaqueColors_Union collected_def)
qed

subsection \<open>Sorting\<close>


lemma rgbaKeySort_less: "rgbaKeySort k1 k2 < 0 \<longleftrightarrow> keyLess k1 k2"
  by (cases k1; cases k2) auto

lemma rgbaKeySort_zero: "rgbaKeySort k1 k2 = 0 \<longleftrightarrow> k1 = k2"
  by (cases k1; cases k2) auto

lemma rgbaKeySort_le: "rgbaKeySort k1 k2 \<le> 0 \<longleftrightarrow> keyLess k1 k2 \<or> k1 = k2"
  using rgbaKeySort_less[of k1 k2] rgbaKeySort_zero[of k1 k2] by linarith

lemma keyLess_trans: "keyLess a b \<Longrightarrow> keyLess b c \<Longrightarrow> keyLess a c"
  by (cases a; cases b; cases c) auto

lemma keyLess_total: "keyLess a b \<or> a = b \<or> keyLess b a"
  by (cases a; cases b) auto

lemma keyLess_irrefl: "\<not> keyLess a a"
  by (cases a) auto

lemma set_insertKey: "set (insertKey k xs) = insert k (set xs)"
  by (induction xs) auto

lemma length_insertKey: "length (insertKey k xs) = Suc (length xs)"
  by (induction xs) auto

lemma distinct_insertKey: "k \<notin> set xs \<Longrightarrow> distinct xs \<Longrightarrow> distinct (insertKey k xs)"
  by (induction xs) (auto simp: set_insertKey)

lemma sorted_insertKey:
  "k \<notin> set xs \<Longrightarrow> sorted_wrt keyLess xs \<Longrightarrow> sorted_wrt keyLess (insertKey k xs)"
proof (induction xs)
  case Nil
  then show ?case by simp
next
  case (Cons x xs)
  show ?case
  proof (cases "rgbaKeySort k x \<le> 0")
    case True
    with Cons.prems have kx: "keyLess k x" by (auto simp: rgbaKeySort_le)
    with Cons.prems have "\<forall>y \<in> set xs. keyLess k y" by (auto intro: keyLess_trans)
    with kx Cons.prems True show ?thesis by simp
  next
    case False
    with keyLess_total[of k x] Cons.prems have "keyLess x k" by (auto simp: rgbaKeySort_le)
    with Cons False show ?thesis by (auto simp: set_insertKey)
  qed
qed

lemma sortKeys_props:
  "distinct xs \<Longrightarrow>
   set (sortKeys xs) = set xs \<and> distinct (sortKeys xs) \<and> length (sortKeys xs) = length xs
   \<and> sorted_wrt keyLess (sortKeys xs)"
  by (induction xs)
     (auto simp: sortKeys_def set_insertKey length_insertKey distinct_insertKey sorted_insertKey)



lemma tileColors_props:
  "set (tileColors pix w tx ty) = opaqueColors pix w tx ty
   \<and> distinct (tileColors pix w tx ty)
   \<and> sorted_wrt keyLess (tileColors pix w tx ty)"
  using sortKeys_props[of "snd (collectTile pix w tx ty)"] collectTile_props[of pix w tx ty]
  by (simp add: tileColors_def)

section \<open>The nested group arrays\<close>


lemma groupsShape_replicate: "groupsShape L F T (replicate L (replicate F (replicate T v)))"
  by (simp add: groupsShape_def)

lemma groupsShape_setGroup:
  assumes "groupsShape L F T g"
  shows "groupsShape L F T (setGroup g l f t v)"
  unfolding groupsShape_def setGroup_def
proof (intro conjI allI impI)
  show "length (g[l := (g ! l)[f := (g ! l ! f)[t := v]]]) = L"
    using assms by (simp add: groupsShape_def)
next
  fix l' assume l': "l' < L"
  show "length (g[l := (g ! l)[f := (g ! l ! f)[t := v]]] ! l') = F"
    using assms l' by (cases "l' = l") (simp_all add: groupsShape_def)
next
  fix l' f' assume l': "l' < L" and f': "f' < F"
  show "length (g[l := (g ! l)[f := (g ! l ! f)[t := v]]] ! l' ! f') = T"
  proof (cases "l' = l")
    case True
    with assms l' f' show ?thesis
      by (cases "f' = f") (simp_all add: groupsShape_def)
  next
    case False
    with assms l' f' show ?thesis by (simp add: groupsShape_def)
  qed
qed

lemma setGroup_nth:
  assumes "groupsShape L F T g" and "l < L" and "f < F" and "t < T"
  shows "setGroup g l f t v ! l' ! f' ! t' =
         (if l' = l \<and> f' = f \<and> t' = t then v else g ! l' ! f' ! t')"
proof (cases "l' = l")
  case False
  then show ?thesis by (simp add: setGroup_def)
next
  case l: True
  from assms have len: "l < length g" "f < length (g ! l)" "t < length (g ! l ! f)"
    by (simp_all add: groupsShape_def)
  show ?thesis
  proof (cases "f' = f")
    case False
    with l len show ?thesis by (simp add: setGroup_def)
  next
    case True
    with l len show ?thesis by (cases "t' = t") (simp_all add: setGroup_def)
  qed
qed

text \<open>A loop that stores \<open>v c\<close> in cell \<open>(c, f, t)\<close> for the layers below \<open>n\<close>.\<close>

lemma fold_setGroup:
  assumes "groupsShape L F T g" and "n \<le> L" and "f < F" and "t < T"
  shows "groupsShape L F T (fold (\<lambda>c g'. setGroup g' c f t (v c)) [0..<n] g)
    \<and> (\<forall>l' f' t'. fold (\<lambda>c g'. setGroup g' c f t (v c)) [0..<n] g ! l' ! f' ! t' =
          (if l' < n \<and> f' = f \<and> t' = t then v l' else g ! l' ! f' ! t'))"
  using assms(2)
proof (induction n)
  case 0
  then show ?case using assms(1) by simp
next
  case (Suc n)
  let ?g = "fold (\<lambda>c g'. setGroup g' c f t (v c)) [0..<n] g"
  from Suc have sh: "groupsShape L F T ?g"
    and val: "\<And>l' f' t'. ?g ! l' ! f' ! t' = (if l' < n \<and> f' = f \<and> t' = t then v l' else g ! l' ! f' ! t')"
    by simp_all
  have step: "fold (\<lambda>c g'. setGroup g' c f t (v c)) [0..<Suc n] g = setGroup ?g n f t (v n)"
    by simp
  from Suc.prems have n: "n < L" by simp
  show ?case
    unfolding step
  proof (intro conjI allI)
    show "groupsShape L F T (setGroup ?g n f t (v n))"
      by (rule groupsShape_setGroup[OF sh])
  next
    fix l' f' t'
    show "setGroup ?g n f t (v n) ! l' ! f' ! t' =
          (if l' < Suc n \<and> f' = f \<and> t' = t then v l' else g ! l' ! f' ! t')"
      unfolding setGroup_nth[OF sh n assms(3) assms(4)] val
      by (auto simp: less_Suc_eq)
  qed
qed

lemma tileId_less:
  fixes ty tx TX TY :: nat
  assumes a: "ty < TY" "tx < TX"
  shows "ty * TX + tx < TX * TY"
proof -
  from a have "ty * TX + tx < ty * TX + TX" by simp
  also have "\<dots> = Suc ty * TX" by simp
  also from a have "\<dots> \<le> TY * TX" by (intro mult_le_mono1) simp
  finally show ?thesis by (simp add: mult.commute)
qed

lemma tileId_inj:
  fixes ty tx ty' tx' TX :: nat
  assumes "tx < TX" and "tx' < TX" and "ty * TX + tx = ty' * TX + tx'"
  shows "ty = ty' \<and> tx = tx'"
proof -
  have d: "(ty * TX + tx) div TX = ty" and m: "(ty * TX + tx) mod TX = tx"
    using assms(1) by simp_all
  have d': "(ty' * TX + tx') div TX = ty'" and m': "(ty' * TX + tx') mod TX = tx'"
    using assms(2) by simp_all
  from d d' have "ty = ty'" unfolding assms(3) by simp
  moreover from m m' have "tx = tx'" unfolding assms(3) by simp
  ultimately show ?thesis ..
qed

lemma slice_beyond: "length xs \<le> start \<Longrightarrow> slice xs start end = []"
  by (simp add: slice_def)

lemma ceil3_le_iff: "ceil3 n \<le> c \<longleftrightarrow> n \<le> c * 3"
  unfolding ceil3_code by presburger

lemma ceil3_gt_iff: "ceil3 n > m \<longleftrightarrow> n > m * 3"
  unfolding ceil3_code by presburger

section \<open>The planning pass\<close>


lemma planTile_fails:
  "(\<exists>e. planTile img TX maxL fi ty tx st = Inl e) \<longleftrightarrow> ceil3 (length (colorsAt img fi ty tx)) > maxL"
  by (simp add: planTile_def colorsAt_def Let_def)

lemma planTile_error:
  "planTile img TX maxL fi ty tx st = Inl e \<Longrightarrow>
   e = LayerOverflow tx ty fi (length (colorsAt img fi ty tx)) maxL (maxL * 3)
   \<and> ceil3 (length (colorsAt img fi ty tx)) > maxL"
  by (simp add: planTile_def colorsAt_def Let_def split: if_splits)

lemma planTile_result:
  assumes "planTile img TX maxL fi ty tx st = Inr st'"
  shows "ceil3 (length (colorsAt img fi ty tx)) \<le> maxL"
    and "fst st' = max (ceil3 (length (colorsAt img fi ty tx))) (fst st)"
    and "snd st' = fillChunks (colorsAt img fi ty tx) (ceil3 (length (colorsAt img fi ty tx))) fi
                     (ty * TX + tx) (clearLayers maxL fi (ty * TX + tx) (snd st))"
  using assms by (auto simp add: planTile_def colorsAt_def Let_def split: if_splits)

lemma plan_cells:
  assumes sh: "groupsShape maxL F T g" and c: "ceil3 (length lst) \<le> maxL" and f: "fi < F" and t: "t < T"
  shows "groupsShape maxL F T (fillChunks lst (ceil3 (length lst)) fi t (clearLayers maxL fi t g))"
    and "fillChunks lst (ceil3 (length lst)) fi t (clearLayers maxL fi t g) ! l' ! f' ! t' =
          (if l' < maxL \<and> f' = fi \<and> t' = t then slice lst (l' * 3) (l' * 3 + 3) else g ! l' ! f' ! t')"
proof -
  let ?g1 = "clearLayers maxL fi t g"
  let ?g2 = "fillChunks lst (ceil3 (length lst)) fi t ?g1"
  from fold_setGroup[OF sh le_refl f t, of "\<lambda>_. []"]
  have sh1: "groupsShape maxL F T ?g1"
    and v1: "\<And>l' f' t'. ?g1 ! l' ! f' ! t' = (if l' < maxL \<and> f' = fi \<and> t' = t then [] else g ! l' ! f' ! t')"
    unfolding clearLayers_def by simp_all
  from fold_setGroup[OF sh1 c f t, of "\<lambda>c. slice lst (c * 3) (c * 3 + 3)"]
  have sh2: "groupsShape maxL F T ?g2"
    and v2: "\<And>l' f' t'. ?g2 ! l' ! f' ! t' =
        (if l' < ceil3 (length lst) \<and> f' = fi \<and> t' = t then slice lst (l' * 3) (l' * 3 + 3)
         else ?g1 ! l' ! f' ! t')"
    unfolding fillChunks_def Let_def by simp_all
  show "groupsShape maxL F T ?g2" by (rule sh2)
  show "?g2 ! l' ! f' ! t' =
          (if l' < maxL \<and> f' = fi \<and> t' = t then slice lst (l' * 3) (l' * 3 + 3) else g ! l' ! f' ! t')"
  proof (cases "l' < ceil3 (length lst)")
    case True
    with c show ?thesis unfolding v2 v1 by simp
  next
    case False
    then have "length lst \<le> l' * 3" by (simp add: ceil3_le_iff not_less)
    then have "slice lst (l' * 3) (l' * 3 + 3) = []" by (rule slice_beyond)
    with False show ?thesis unfolding v2 v1 by simp
  qed
qed

lemma planTile_step:
  assumes inv: "planInv img TX TY maxL D st"
    and fi: "fi < frameCount img" and ty: "ty < TY" and tx: "tx < TX"
    and run: "planTile img TX maxL fi ty tx st = Inr st'"
  shows "planInv img TX TY maxL (insert (fi, ty, tx) D) st'"
proof -
  let ?lst = "colorsAt img fi ty tx"
  let ?c = "ceil3 (length ?lst)"
  let ?t = "ty * TX + tx"
  note r = planTile_result[OF run]
  from inv have sh: "groupsShape maxL (frameCount img) (TX * TY) (snd st)"
    and lo: "1 \<le> fst st" and hi: "fst st \<le> max 1 maxL"
    and sub: "D \<subseteq> {..<frameCount img} \<times> {..<TY} \<times> {..<TX}"
    and old: "\<And>fi ty tx. (fi, ty, tx) \<in> D \<Longrightarrow>
           ceil3 (length (colorsAt img fi ty tx)) \<le> fst st
           \<and> (\<forall>l < maxL. snd st ! l ! fi ! (ty * TX + tx)
                  = slice (colorsAt img fi ty tx) (l * 3) (l * 3 + 3))"
    and att: "fst st = 1 \<or> (\<exists>fi ty tx. (fi, ty, tx) \<in> D \<and> ceil3 (length (colorsAt img fi ty tx)) = fst st)"
    unfolding planInv_def by blast+
  have t: "?t < TX * TY" by (rule tileId_less[OF ty tx])
  note cells = plan_cells[OF sh r(1) fi t]
  have sh': "groupsShape maxL (frameCount img) (TX * TY) (snd st')"
    unfolding r(3) by (rule cells(1))
  have val: "\<And>l' f' t'. snd st' ! l' ! f' ! t' =
      (if l' < maxL \<and> f' = fi \<and> t' = ?t then slice ?lst (l' * 3) (l' * 3 + 3) else snd st ! l' ! f' ! t')"
    unfolding r(3) by (rule cells(2))
  have lo': "1 \<le> fst st'" using lo unfolding r(2) by simp
  have hi': "fst st' \<le> max 1 maxL" using hi r(1) unfolding r(2) by simp
  have sub': "insert (fi, ty, tx) D \<subseteq> {..<frameCount img} \<times> {..<TY} \<times> {..<TX}"
    using sub fi ty tx by simp
  have all': "ceil3 (length (colorsAt img fi' ty' tx')) \<le> fst st'
           \<and> (\<forall>l < maxL. snd st' ! l ! fi' ! (ty' * TX + tx')
                  = slice (colorsAt img fi' ty' tx') (l * 3) (l * 3 + 3))"
    if mem: "(fi', ty', tx') \<in> insert (fi, ty, tx) D" for fi' ty' tx'
  proof (cases "(fi', ty', tx') = (fi, ty, tx)")
    case True
    then have e: "fi' = fi" "ty' = ty" "tx' = tx" by simp_all
    show ?thesis unfolding e val r(2) by simp
  next
    case False
    with mem have d: "(fi', ty', tx') \<in> D" by blast
    with sub have tx': "tx' < TX" by auto
    have ne: "\<not> (fi' = fi \<and> ty' * TX + tx' = ?t)"
    proof
      assume a: "fi' = fi \<and> ty' * TX + tx' = ?t"
      with tileId_inj[OF tx' tx, of ty' ty] have "ty' = ty \<and> tx' = tx" by simp
      with a False show False by simp
    qed
    from old[OF d] have o1: "ceil3 (length (colorsAt img fi' ty' tx')) \<le> fst st"
      and o2: "\<And>l. l < maxL \<Longrightarrow> snd st ! l ! fi' ! (ty' * TX + tx')
                  = slice (colorsAt img fi' ty' tx') (l * 3) (l * 3 + 3)"
      by simp_all
    from o1 have "ceil3 (length (colorsAt img fi' ty' tx')) \<le> fst st'" unfolding r(2) by simp
    moreover have "\<forall>l < maxL. snd st' ! l ! fi' ! (ty' * TX + tx')
                  = slice (colorsAt img fi' ty' tx') (l * 3) (l * 3 + 3)"
      using ne o2 unfolding val by auto
    ultimately show ?thesis ..
  qed
  have att': "fst st' = 1 \<or> (\<exists>fi' ty' tx'. (fi', ty', tx') \<in> insert (fi, ty, tx) D
      \<and> ceil3 (length (colorsAt img fi' ty' tx')) = fst st')"
  proof (cases "?c > fst st")
    case True
    then have "fst st' = ?c" unfolding r(2) by simp
    then show ?thesis by auto
  next
    case False
    then have "fst st' = fst st" unfolding r(2) by simp
    with att show ?thesis by auto
  qed
  show ?thesis
    unfolding planInv_def using sh' lo' hi' sub' all' att' by blast
qed

lemma forEach_error_first:
  "forEach body xs s = Inl e \<Longrightarrow>
   \<exists>ys x zs t. xs = ys @ x # zs \<and> forEach body ys s = Inr t \<and> body x t = Inl e"
proof (induction xs arbitrary: s)
  case Nil
  then show ?case by simp
next
  case (Cons x xs)
  show ?case
  proof (cases "body x s")
    case (Inl e')
    with Cons.prems have "x # xs = [] @ x # xs \<and> forEach body [] s = Inr s \<and> body x s = Inl e"
      by simp
    then show ?thesis by blast
  next
    case (Inr t)
    with Cons.prems have "forEach body xs t = Inl e" by simp
    from Cons.IH[OF this] obtain ys y zs u
      where "xs = ys @ y # zs" "forEach body ys t = Inr u" "body y u = Inl e" by blast
    with Inr have "x # xs = (x # ys) @ y # zs \<and> forEach body (x # ys) s = Inr u \<and> body y u = Inl e"
      by simp
    then show ?thesis by blast
  qed
qed

lemma forEach_Inr_no_failure:
  "forEach body xs s = Inr t \<Longrightarrow> x \<in> set xs \<Longrightarrow> \<exists>u v. body x u = Inr v"
proof (induction xs arbitrary: s)
  case Nil
  then show ?case by simp
next
  case (Cons y ys)
  from Cons.prems(1) obtain s' where s': "body y s = Inr s'" and rest: "forEach body ys s' = Inr t"
    by (auto split: sum.splits)
  show ?case
  proof (cases "x = y")
    case True
    with s' show ?thesis by blast
  next
    case False
    with Cons.prems(2) have "x \<in> set ys" by simp
    from Cons.IH[OF rest this] show ?thesis .
  qed
qed

lemma set_allTiles:
  "set (allTiles img TX TY) = {..<frameCount img} \<times> {..<TY} \<times> {..<TX}"
  by (auto simp: allTiles_def)

lemma plan_loop_flat:
  "forEach (\<lambda>fi2. forEach (\<lambda>ty. forEach (\<lambda>tx. planTile img TX maxL fi2 ty tx) [0..<TX]) [0..<TY])
     [0..<frameCount img] s
   = forEach (\<lambda>(fi, ty, tx). planTile img TX maxL fi ty tx) (allTiles img TX TY) s"
proof -
  have inner: "(\<lambda>fi2. forEach (\<lambda>ty. forEach (\<lambda>tx. planTile img TX maxL fi2 ty tx) [0..<TX]) [0..<TY])
      = (\<lambda>fi2. forEach (\<lambda>(ty, tx). planTile img TX maxL fi2 ty tx) (List.product [0..<TY] [0..<TX]))"
    by (intro ext) (rule forEach_product)
  show ?thesis
    unfolding inner allTiles_def by (rule forEach_product)
qed

lemma plan_loop_invariant:
  assumes "forEach (\<lambda>(fi, ty, tx). planTile img TX maxL fi ty tx) (allTiles img TX TY)
             (1, replicate maxL (replicate (frameCount img) (replicate (TX * TY) []))) = Inr st"
  shows "planInv img TX TY maxL (set (allTiles img TX TY)) st"
proof (rule forEach_invariant[OF assms])
  show "planInv img TX TY maxL {} (1, replicate maxL (replicate (frameCount img) (replicate (TX * TY) [])))"
    by (simp add: planInv_def groupsShape_replicate)
next
  fix x D s t
  assume x: "x \<in> set (allTiles img TX TY)" and inv: "planInv img TX TY maxL D s"
    and run: "(case x of (fi, ty, tx) \<Rightarrow> planTile img TX maxL fi ty tx) s = Inr t"
  obtain fi ty tx where e: "x = (fi, ty, tx)" by (cases x)
  from x have r: "fi < frameCount img" "ty < TY" "tx < TX"
    unfolding e set_allTiles by simp_all
  from run have "planTile img TX maxL fi ty tx s = Inr t" unfolding e by simp
  from planTile_step[OF inv r this] show "planInv img TX TY maxL (insert x D) t"
    unfolding e .
qed

lemma buildLayeredPlan_Inr:
  assumes "buildLayeredPlan img TX TY maxL = Inr pl"
  obtains st where
    "forEach (\<lambda>(fi, ty, tx). planTile img TX maxL fi ty tx) (allTiles img TX TY)
       (1, replicate maxL (replicate (frameCount img) (replicate (TX * TY) []))) = Inr st"
    and "pl = \<lparr>layerCount = fst st, groups = take (fst st) (snd st)\<rparr>"
  using assms unfolding buildLayeredPlan_def Let_def plan_loop_flat
  by (auto split: sum.splits prod.splits)

lemma buildLayeredPlan_Inl:
  "buildLayeredPlan img TX TY maxL = Inl e \<longleftrightarrow>
   forEach (\<lambda>(fi, ty, tx). planTile img TX maxL fi ty tx) (allTiles img TX TY)
       (1, replicate maxL (replicate (frameCount img) (replicate (TX * TY) []))) = Inl e"
  unfolding buildLayeredPlan_def Let_def plan_loop_flat
  by (auto split: sum.splits prod.splits)

text \<open>What a plan that was built holds.\<close>

lemma plan_success:
  assumes built: "buildLayeredPlan img TX TY maxL = Inr pl" and ml: "1 \<le> maxL"
  shows "1 \<le> layerCount pl" and "layerCount pl \<le> maxL"
    and "groupsShape (layerCount pl) (frameCount img) (TX * TY) (groups pl)"
    and "\<And>fi ty tx. fi < frameCount img \<Longrightarrow> ty < TY \<Longrightarrow> tx < TX \<Longrightarrow>
           ceil3 (length (colorsAt img fi ty tx)) \<le> layerCount pl"
    and "\<And>fi ty tx l. fi < frameCount img \<Longrightarrow> ty < TY \<Longrightarrow> tx < TX \<Longrightarrow> l < layerCount pl \<Longrightarrow>
           groups pl ! l ! fi ! (ty * TX + tx) = slice (colorsAt img fi ty tx) (l * 3) (l * 3 + 3)"
    and "layerCount pl = 1 \<or> (\<exists>fi ty tx. fi < frameCount img \<and> ty < TY \<and> tx < TX
           \<and> ceil3 (length (colorsAt img fi ty tx)) = layerCount pl)"
proof -
  from built obtain st where
    run: "forEach (\<lambda>(fi, ty, tx). planTile img TX maxL fi ty tx) (allTiles img TX TY)
       (1, replicate maxL (replicate (frameCount img) (replicate (TX * TY) []))) = Inr st"
    and pl: "pl = \<lparr>layerCount = fst st, groups = take (fst st) (snd st)\<rparr>"
    by (rule buildLayeredPlan_Inr)
  from plan_loop_invariant[OF run]
  have sh: "groupsShape maxL (frameCount img) (TX * TY) (snd st)"
    and lo: "1 \<le> fst st" and hi: "fst st \<le> max 1 maxL"
    and old: "\<And>fi ty tx. (fi, ty, tx) \<in> set (allTiles img TX TY) \<Longrightarrow>
           ceil3 (length (colorsAt img fi ty tx)) \<le> fst st
           \<and> (\<forall>l < maxL. snd st ! l ! fi ! (ty * TX + tx)
                  = slice (colorsAt img fi ty tx) (l * 3) (l * 3 + 3))"
    and att: "fst st = 1 \<or> (\<exists>fi ty tx. (fi, ty, tx) \<in> set (allTiles img TX TY)
           \<and> ceil3 (length (colorsAt img fi ty tx)) = fst st)"
    unfolding planInv_def by blast+
  from hi ml have hi': "fst st \<le> maxL" by simp
  show "1 \<le> layerCount pl" using lo by (simp add: pl)
  show "layerCount pl \<le> maxL" using hi' by (simp add: pl)
  show "groupsShape (layerCount pl) (frameCount img) (TX * TY) (groups pl)"
    using sh hi' unfolding groupsShape_def pl by simp
  show "ceil3 (length (colorsAt img fi ty tx)) \<le> layerCount pl"
    if "fi < frameCount img" "ty < TY" "tx < TX" for fi ty tx
    using old[of fi ty tx] that by (simp add: pl set_allTiles)
  show "groups pl ! l ! fi ! (ty * TX + tx) = slice (colorsAt img fi ty tx) (l * 3) (l * 3 + 3)"
    if "fi < frameCount img" "ty < TY" "tx < TX" "l < layerCount pl" for fi ty tx l
  proof -
    from that(4) have l: "l < fst st" by (simp add: pl)
    with hi' have "l < maxL" by simp
    with old[of fi ty tx] that(1-3) have "snd st ! l ! fi ! (ty * TX + tx)
        = slice (colorsAt img fi ty tx) (l * 3) (l * 3 + 3)"
      by (simp add: set_allTiles)
    with l show ?thesis by (simp add: pl)
  qed
  show "layerCount pl = 1 \<or> (\<exists>fi ty tx. fi < frameCount img \<and> ty < TY \<and> tx < TX
           \<and> ceil3 (length (colorsAt img fi ty tx)) = layerCount pl)"
    using att by (simp add: pl set_allTiles)
qed

text \<open>When the planning pass fails, and with what.\<close>

lemma plan_fails_iff:
  "(\<exists>e. buildLayeredPlan img TX TY maxL = Inl e) \<longleftrightarrow>
   (\<exists>tile \<in> set (allTiles img TX TY). overBudget img maxL tile)"
  unfolding buildLayeredPlan_Inl
proof (rule forEach_fails_iff)
  fix x :: "nat \<times> nat \<times> nat" and s :: "nat \<times> colorKey list list list list"
  obtain fi ty tx where e: "x = (fi, ty, tx)" by (cases x)
  show "(\<exists>e. (case x of (fi, ty, tx) \<Rightarrow> planTile img TX maxL fi ty tx) s = Inl e) = overBudget img maxL x"
    unfolding e overBudget_def by (simp add: planTile_fails)
qed

lemma plan_failure:
  assumes "buildLayeredPlan img TX TY maxL = Inl e"
  shows "\<exists>ys fi ty tx zs. allTiles img TX TY = ys @ (fi, ty, tx) # zs
      \<and> (\<forall>tile \<in> set ys. \<not> overBudget img maxL tile)
      \<and> overBudget img maxL (fi, ty, tx)
      \<and> e = LayerOverflow tx ty fi (length (colorsAt img fi ty tx)) maxL (maxL * 3)"
proof -
  let ?body = "\<lambda>(fi, ty, tx). planTile img TX maxL fi ty tx"
  from assms have "forEach ?body (allTiles img TX TY)
       (1, replicate maxL (replicate (frameCount img) (replicate (TX * TY) []))) = Inl e"
    by (simp add: buildLayeredPlan_Inl)
  from forEach_error_first[OF this] obtain ys x zs t where
    split: "allTiles img TX TY = ys @ x # zs"
    and before: "forEach ?body ys (1, replicate maxL (replicate (frameCount img) (replicate (TX * TY) []))) = Inr t"
    and fail: "?body x t = Inl e"
    by blast
  obtain fi ty tx where x: "x = (fi, ty, tx)" by (cases x)
  from fail have err: "planTile img TX maxL fi ty tx t = Inl e" unfolding x by simp
  have ok: "\<not> overBudget img maxL tile" if "tile \<in> set ys" for tile
  proof -
    obtain f y c where tile: "tile = (f, y, c)" by (cases tile)
    from forEach_Inr_no_failure[OF before that] obtain u v where "?body tile u = Inr v" by blast
    then have "planTile img TX maxL f y c u = Inr v" unfolding tile by simp
    from planTile_result(1)[OF this] show ?thesis
      unfolding tile overBudget_def by simp
  qed
  from planTile_error[OF err] have "overBudget img maxL (fi, ty, tx)"
    and "e = LayerOverflow tx ty fi (length (colorsAt img fi ty tx)) maxL (maxL * 3)"
    unfolding overBudget_def by simp_all
  with split ok show ?thesis unfolding x by blast
qed

section \<open>The palette bank\<close>

lemma samePalette_refl: "samePalette p p"
  by (simp add: samePalette_def)

lemma findOrAddPalette_cases:
  obtains (found) i where "i < length bnk" and "samePalette (bnk ! i) pal"
      and "\<forall>k < i. \<not> samePalette (bnk ! k) pal"
      and "findOrAddPalette bnk pal mx = (int i, bnk)"
  | (added) "\<forall>p \<in> set bnk. \<not> samePalette p pal" and "length bnk < mx"
      and "findOrAddPalette bnk pal mx = (int (length bnk), bnk @ [pal])"
  | (full) "\<forall>p \<in> set bnk. \<not> samePalette p pal" and "mx \<le> length bnk"
      and "findOrAddPalette bnk pal mx = (- 1, bnk)"
proof (cases "searchBank bnk pal 0")
  case None
  then have none: "\<forall>p \<in> set bnk. \<not> samePalette p pal" by (simp add: searchBank_None)
  show ?thesis
  proof (cases "mx \<le> length bnk")
    case True
    with None have "findOrAddPalette bnk pal mx = (- 1, bnk)"
      by (simp add: findOrAddPalette_def)
    with none True show ?thesis by (rule full)
  next
    case False
    with None have "findOrAddPalette bnk pal mx = (int (length bnk), bnk @ [pal])"
      by (simp add: findOrAddPalette_def)
    with none False show ?thesis by (intro added) simp_all
  qed
next
  case (Some i)
  from searchBank_Some[OF Some] have "i < length bnk" "samePalette (bnk ! i) pal"
    "\<forall>k < i. \<not> samePalette (bnk ! k) pal" by simp_all
  moreover from Some have "findOrAddPalette bnk pal mx = (int i, bnk)"
    by (simp add: findOrAddPalette_def)
  ultimately show ?thesis by (rule found)
qed

text \<open>What a successful lookup leaves behind.\<close>

lemma findOrAddPalette_ok:
  assumes "findOrAddPalette bnk pal mx = (palId, bnk')" and "0 \<le> palId" and "length bnk \<le> mx"
  shows "\<exists>ext. bnk' = bnk @ ext" and "length bnk' \<le> mx" and "nat palId < length bnk'"
    and "samePalette (bnk' ! nat palId) pal"
proof -
  have "(\<exists>ext. bnk' = bnk @ ext) \<and> length bnk' \<le> mx \<and> nat palId < length bnk'
    \<and> samePalette (bnk' ! nat palId) pal"
  proof (rule findOrAddPalette_cases[of bnk pal mx])
    fix i
    assume "i < length bnk" and "samePalette (bnk ! i) pal"
      and "findOrAddPalette bnk pal mx = (int i, bnk)"
    with assms show ?thesis by auto
  next
    assume "length bnk < mx" and "findOrAddPalette bnk pal mx = (int (length bnk), bnk @ [pal])"
    with assms show ?thesis by (auto simp: samePalette_refl)
  next
    assume "findOrAddPalette bnk pal mx = (- 1, bnk)"
    with assms show ?thesis by simp
  qed
  then show "\<exists>ext. bnk' = bnk @ ext" and "length bnk' \<le> mx" and "nat palId < length bnk'"
    and "samePalette (bnk' ! nat palId) pal"
    by simp_all
qed

section \<open>Loops over an index range\<close>

lemma forEach_upt_rule:
  assumes "forEach body [0..<n] s = Inr s'" and "P 0 s"
    and step: "\<And>i s t. i < n \<Longrightarrow> P i s \<Longrightarrow> body i s = Inr t \<Longrightarrow> P (Suc i) t"
  shows "P n s'"
  using assms(1) step
proof (induction n arbitrary: s')
  case 0
  with assms(2) show ?case by simp
next
  case (Suc n)
  from Suc.prems(1) obtain t where t: "forEach body [0..<n] s = Inr t" and last: "body n t = Inr s'"
    by (auto simp: forEach_append split: sum.splits)
  have "P n t"
    by (rule Suc.IH[OF t]) (rule Suc.prems(2), simp_all)
  from Suc.prems(2)[OF _ this last] show ?case by simp
qed

section \<open>The encoding pass\<close>


lemma setCell_length: "length (setCell a fi t v) = length a"
  by (simp add: setCell_def)

lemma setCell_row_length: "length (setCell a fi t v ! f') = length (a ! f')"
  by (cases "fi < length a"; cases "f' = fi") (simp_all add: setCell_def list_update_beyond)

lemma setCell_nth:
  "fi < length a \<Longrightarrow> t < length (a ! fi) \<Longrightarrow>
   setCell a fi t v ! f' ! t' = (if f' = fi \<and> t' = t then v else a ! f' ! t')"
  by (cases "f' = fi"; cases "t' = t") (simp_all add: setCell_def)

lemma encodeTileStep_Inr:
  assumes "encodeTileStep img pl TX MP l fi ty tx st = Inr st'"
  obtains palId where
    "findOrAddPalette (bank st) (buildTilePaletteRgb444 (groups pl ! l ! fi ! (ty * TX + tx))) MP
       = (palId, bank st')"
    and "0 \<le> palId"
    and "palIds st' = setCell (palIds st) fi (ty * TX + tx) (nat palId)"
    and "tileData st' = setCell (tileData st) fi (ty * TX + tx)
           (encodeNgpcTile2bppLayered (frames img ! fi) (width img) (tx * 8) (ty * 8)
              (groups pl ! l ! fi ! (ty * TX + tx)))"
proof -
  obtain palId bank' where f:
    "findOrAddPalette (bank st) (buildTilePaletteRgb444 (groups pl ! l ! fi ! (ty * TX + tx))) MP
       = (palId, bank')"
    by (cases "findOrAddPalette (bank st) (buildTilePaletteRgb444 (groups pl ! l ! fi ! (ty * TX + tx))) MP")
  from assms have pos: "0 \<le> palId"
    unfolding encodeTileStep_def Let_def f by (simp split: if_splits)
  from assms pos have st': "st' = \<lparr>bank = bank',
      palIds = setCell (palIds st) fi (ty * TX + tx) (nat palId),
      tileData = setCell (tileData st) fi (ty * TX + tx)
           (encodeNgpcTile2bppLayered (frames img ! fi) (width img) (tx * 8) (ty * 8)
              (groups pl ! l ! fi ! (ty * TX + tx)))\<rparr>"
    unfolding encodeTileStep_def Let_def f by simp
  show ?thesis
    by (rule that[of palId]) (simp_all add: st' f pos)
qed


lemma tileFacts_preserved:
  assumes facts: "tileFacts img pl TX l st fi' ty' tx'"
    and ext: "bank st' = bank st @ ext"
    and ids: "length (palIds st' ! fi') = length (palIds st ! fi')
        \<and> palIds st' ! fi' ! (ty' * TX + tx') = palIds st ! fi' ! (ty' * TX + tx')"
    and dat: "length (tileData st' ! fi') = length (tileData st ! fi')
        \<and> tileData st' ! fi' ! (ty' * TX + tx') = tileData st ! fi' ! (ty' * TX + tx')"
  shows "tileFacts img pl TX l st' fi' ty' tx'"
proof -
  from ids have i1: "length (palIds st' ! fi') = length (palIds st ! fi')"
    and i2: "palIds st' ! fi' ! (ty' * TX + tx') = palIds st ! fi' ! (ty' * TX + tx')" by auto
  from dat have d1: "length (tileData st' ! fi') = length (tileData st ! fi')"
    and d2: "tileData st' ! fi' ! (ty' * TX + tx') = tileData st ! fi' ! (ty' * TX + tx')" by auto
  from facts have f: "length (palIds st ! fi') = TX * (height img div 8)"
    "length (tileData st ! fi') = TX * (height img div 8)"
    "palIds st ! fi' ! (ty' * TX + tx') < length (bank st)"
    "samePalette (bank st ! (palIds st ! fi' ! (ty' * TX + tx')))
          (buildTilePaletteRgb444 (groups pl ! l ! fi' ! (ty' * TX + tx')))"
    "tileData st ! fi' ! (ty' * TX + tx') =
          encodeNgpcTile2bppLayered (frames img ! fi') (width img) (tx' * 8) (ty' * 8)
            (groups pl ! l ! fi' ! (ty' * TX + tx'))"
    unfolding tileFacts_def by simp_all
  from f(3) have "bank st' ! (palIds st ! fi' ! (ty' * TX + tx')) = bank st ! (palIds st ! fi' ! (ty' * TX + tx'))"
    unfolding ext by (simp add: nth_append)
  with f show ?thesis
    unfolding tileFacts_def i1 i2 d1 d2 by (simp add: ext)
qed

lemma encodeTileStep_step:
  assumes inv: "layerInv img pl TX MP l D st"
    and fi: "fi < frameCount img" and ty: "ty < height img div 8" and tx: "tx < TX"
    and rows: "length (palIds st ! fi) = TX * (height img div 8)"
      "length (tileData st ! fi) = TX * (height img div 8)"
    and run: "encodeTileStep img pl TX MP l fi ty tx st = Inr st'"
  shows "layerInv img pl TX MP l (insert (fi, ty, tx) D) st'"
    and "length (palIds st' ! fi) = TX * (height img div 8)"
    and "length (tileData st' ! fi) = TX * (height img div 8)"
proof -
  let ?t = "ty * TX + tx"
  let ?grp = "groups pl ! l ! fi ! ?t"
  let ?bytes = "encodeNgpcTile2bppLayered (frames img ! fi) (width img) (tx * 8) (ty * 8) ?grp"
  from inv have lens: "length (palIds st) = frameCount img" "length (tileData st) = frameCount img"
    and cap: "length (bank st) \<le> MP"
    and sub: "D \<subseteq> {..<frameCount img} \<times> {..<height img div 8} \<times> {..<TX}"
    and old: "\<And>fi ty tx. (fi, ty, tx) \<in> D \<Longrightarrow> tileFacts img pl TX l st fi ty tx"
    unfolding layerInv_def by blast+
  from run obtain palId where
    find: "findOrAddPalette (bank st) (buildTilePaletteRgb444 ?grp) MP = (palId, bank st')"
    and pos: "0 \<le> palId"
    and ids: "palIds st' = setCell (palIds st) fi ?t (nat palId)"
    and dat: "tileData st' = setCell (tileData st) fi ?t ?bytes"
    by (rule encodeTileStep_Inr)
  note ok = findOrAddPalette_ok[OF find pos cap]
  from ok(1) obtain ext where ext: "bank st' = bank st @ ext" by blast
  have t: "?t < TX * (height img div 8)" by (rule tileId_less[OF ty tx])
  have fi1: "fi < length (palIds st)" and fi2: "fi < length (tileData st)"
    using fi lens by simp_all
  have t1: "?t < length (palIds st ! fi)" and t2: "?t < length (tileData st ! fi)"
    using t rows by simp_all
  show r1: "length (palIds st' ! fi) = TX * (height img div 8)"
    unfolding ids setCell_row_length by (rule rows(1))
  show r2: "length (tileData st' ! fi) = TX * (height img div 8)"
    unfolding dat setCell_row_length by (rule rows(2))
  have new: "tileFacts img pl TX l st' fi ty tx"
    unfolding tileFacts_def
  proof (intro conjI)
    show "length (palIds st' ! fi) = TX * (height img div 8)" by (rule r1)
    show "length (tileData st' ! fi) = TX * (height img div 8)" by (rule r2)
    have id: "palIds st' ! fi ! ?t = nat palId"
      unfolding ids by (simp add: setCell_nth[OF fi1 t1])
    show "palIds st' ! fi ! ?t < length (bank st')" unfolding id by (rule ok(3))
    show "samePalette (bank st' ! (palIds st' ! fi ! ?t)) (buildTilePaletteRgb444 ?grp)"
      unfolding id by (rule ok(4))
    show "tileData st' ! fi ! ?t = ?bytes"
      unfolding dat by (simp add: setCell_nth[OF fi2 t2])
  qed
  have all: "tileFacts img pl TX l st' fi' ty' tx'"
    if mem: "(fi', ty', tx') \<in> insert (fi, ty, tx) D" for fi' ty' tx'
  proof (cases "(fi', ty', tx') = (fi, ty, tx)")
    case True
    with new show ?thesis by simp
  next
    case False
    with mem have d: "(fi', ty', tx') \<in> D" by blast
    with sub have tx': "tx' < TX" by auto
    have ne: "\<not> (fi' = fi \<and> ty' * TX + tx' = ?t)"
    proof
      assume a: "fi' = fi \<and> ty' * TX + tx' = ?t"
      with tileId_inj[OF tx' tx, of ty' ty] have "ty' = ty \<and> tx' = tx" by simp
      with a False show False by simp
    qed
    show ?thesis
    proof (rule tileFacts_preserved[OF old[OF d] ext])
      have "setCell (palIds st) fi ?t (nat palId) ! fi' ! (ty' * TX + tx')
          = palIds st ! fi' ! (ty' * TX + tx')"
        unfolding setCell_nth[OF fi1 t1] by (simp only: ne if_False)
      then show "length (palIds st' ! fi') = length (palIds st ! fi')
          \<and> palIds st' ! fi' ! (ty' * TX + tx') = palIds st ! fi' ! (ty' * TX + tx')"
        unfolding ids setCell_row_length by simp
      have "setCell (tileData st) fi ?t ?bytes ! fi' ! (ty' * TX + tx')
          = tileData st ! fi' ! (ty' * TX + tx')"
        unfolding setCell_nth[OF fi2 t2] by (simp only: ne if_False)
      then show "length (tileData st' ! fi') = length (tileData st ! fi')
          \<and> tileData st' ! fi' ! (ty' * TX + tx') = tileData st ! fi' ! (ty' * TX + tx')"
        unfolding dat setCell_row_length by simp
    qed
  qed
  have sub': "insert (fi, ty, tx) D \<subseteq> {..<frameCount img} \<times> {..<height img div 8} \<times> {..<TX}"
    using sub fi ty tx by simp
  show "layerInv img pl TX MP l (insert (fi, ty, tx) D) st'"
    unfolding layerInv_def using lens ok(2) sub' all
    by (simp add: ids dat setCell_length)
qed

lemma encodeFrame_step:
  assumes inv: "layerInv img pl TX MP l ({..<fi} \<times> {..<height img div 8} \<times> {..<TX}) st"
    and fi: "fi < frameCount img"
    and run: "encodeFrame img pl TX (height img div 8) MP l fi st = Inr st'"
  shows "layerInv img pl TX MP l ({..<Suc fi} \<times> {..<height img div 8} \<times> {..<TX}) st'"
proof -
  let ?TY = "height img div 8"
  let ?R = "{..<?TY} \<times> {..<TX}"
  let ?A = "{..<fi} \<times> ?R"
  let ?st0 = "st\<lparr>palIds := (palIds st)[fi := replicate (TX * ?TY) 0],
                 tileData := (tileData st)[fi := replicate (TX * ?TY) []]\<rparr>"
  from inv have lens: "length (palIds st) = frameCount img" "length (tileData st) = frameCount img"
    and cap: "length (bank st) \<le> MP"
    and sub: "?A \<subseteq> {..<frameCount img} \<times> {..<height img div 8} \<times> {..<TX}"
    and old: "\<And>f ty tx. (f, ty, tx) \<in> ?A \<Longrightarrow> tileFacts img pl TX l st f ty tx"
    unfolding layerInv_def by blast+
  have facts0: "tileFacts img pl TX l ?st0 f ty tx" if mem: "(f, ty, tx) \<in> ?A" for f ty tx
  proof (rule tileFacts_preserved[OF old[OF mem], of _ "[]"])
    from mem have ne: "f \<noteq> fi" by auto
    show "bank ?st0 = bank st @ []" by simp
    show "length (palIds ?st0 ! f) = length (palIds st ! f)
        \<and> palIds ?st0 ! f ! (ty * TX + tx) = palIds st ! f ! (ty * TX + tx)"
      using ne by simp
    show "length (tileData ?st0 ! f) = length (tileData st ! f)
        \<and> tileData ?st0 ! f ! (ty * TX + tx) = tileData st ! f ! (ty * TX + tx)"
      using ne by simp
  qed
  have inv0: "layerInv img pl TX MP l ?A ?st0"
    unfolding layerInv_def
  proof (intro conjI allI impI)
    show "length (palIds ?st0) = frameCount img" using lens by simp
    show "length (tileData ?st0) = frameCount img" using lens by simp
    show "length (bank ?st0) \<le> MP" using cap by simp
    show "?A \<subseteq> {..<frameCount img} \<times> {..<height img div 8} \<times> {..<TX}" by (rule sub)
    show "tileFacts img pl TX l ?st0 f ty tx" if "(f, ty, tx) \<in> ?A" for f ty tx
      using that by (rule facts0)
  qed
  have rows0: "length (palIds ?st0 ! fi) = TX * ?TY" "length (tileData ?st0 ! fi) = TX * ?TY"
    using fi lens by simp_all
  let ?body = "\<lambda>(ty, tx). encodeTileStep img pl TX MP l fi ty tx"
  let ?Inv = "\<lambda>D s. layerInv img pl TX MP l (?A \<union> {fi} \<times> D) s
      \<and> length (palIds s ! fi) = TX * ?TY \<and> length (tileData s ! fi) = TX * ?TY"
  from run have flat: "forEach ?body (List.product [0..<?TY] [0..<TX]) ?st0 = Inr st'"
    unfolding encodeFrame_def forEach_product by simp
  have "?Inv (set (List.product [0..<?TY] [0..<TX])) st'"
  proof (rule forEach_invariant[where Inv = ?Inv, OF flat])
    have "?A \<union> {fi} \<times> {} = ?A" by simp
    with inv0 rows0 show "?Inv {} ?st0" by simp
  next
    fix x :: "nat \<times> nat" and D s t
    assume x: "x \<in> set (List.product [0..<?TY] [0..<TX])" and i: "?Inv D s"
      and b: "?body x s = Inr t"
    obtain ty tx where e: "x = (ty, tx)" by (cases x)
    from x have r: "ty < ?TY" "tx < TX" unfolding e by simp_all
    from b have b': "encodeTileStep img pl TX MP l fi ty tx s = Inr t" unfolding e by simp
    from i have i1: "layerInv img pl TX MP l (?A \<union> {fi} \<times> D) s"
      and i2: "length (palIds s ! fi) = TX * ?TY" and i3: "length (tileData s ! fi) = TX * ?TY"
      by simp_all
    note s = encodeTileStep_step[OF i1 fi r i2 i3 b']
    have eq: "insert (fi, ty, tx) (?A \<union> {fi} \<times> D) = ?A \<union> {fi} \<times> insert x D"
      unfolding e by blast
    from s show "?Inv (insert x D) t" unfolding eq by simp
  qed
  moreover have "?A \<union> {fi} \<times> set (List.product [0..<?TY] [0..<TX]) = {..<Suc fi} \<times> ?R"
    by (auto simp: less_Suc_eq)
  ultimately show ?thesis by simp
qed

lemma encodeLayer_Inr:
  assumes "encodeLayer img pl TX (height img div 8) MP l out = Inr out'"
  obtains st where "layerInv img pl TX MP l (tileSet img TX) st"
    and "out' = out\<lparr>perLayerPalettes := perLayerPalettes out @ [bank st],
                     perLayerPalIdMap := perLayerPalIdMap out @ [palIds st],
                     perLayerTiles := perLayerTiles out @ [tileData st]\<rparr>"
proof -
  let ?init = "\<lparr>bank = [], palIds = replicate (frameCount img) [],
              tileData = replicate (frameCount img) []\<rparr>"
  from assms obtain st where
    run: "forEach (encodeFrame img pl TX (height img div 8) MP l) [0..<frameCount img] ?init = Inr st"
    and out': "out' = out\<lparr>perLayerPalettes := perLayerPalettes out @ [bank st],
                     perLayerPalIdMap := perLayerPalIdMap out @ [palIds st],
                     perLayerTiles := perLayerTiles out @ [tileData st]\<rparr>"
    unfolding encodeLayer_def by (auto split: sum.splits)
  let ?P = "\<lambda>i s. layerInv img pl TX MP l ({..<i} \<times> {..<height img div 8} \<times> {..<TX}) s"
  have "?P (frameCount img) st"
  proof (rule forEach_upt_rule[where P = ?P, OF run])
    show "?P 0 ?init" by (simp add: layerInv_def)
  next
    fix i s t
    assume a: "i < frameCount img" and b: "?P i s"
      and c: "encodeFrame img pl TX (height img div 8) MP l i s = Inr t"
    show "?P (Suc i) t" by (rule encodeFrame_step[OF b a c])
  qed
  then have "layerInv img pl TX MP l (tileSet img TX) st" by (simp add: tileSet_def)
  then show ?thesis using out' by (rule that)
qed

lemma encodeLayer_step:
  assumes inv: "outInv img pl TX MP n out"
    and run: "encodeLayer img pl TX (height img div 8) MP n out = Inr out'"
  shows "outInv img pl TX MP (Suc n) out'"
proof -
  from run obtain st where st: "layerInv img pl TX MP n (tileSet img TX) st"
    and out': "out' = out\<lparr>perLayerPalettes := perLayerPalettes out @ [bank st],
                     perLayerPalIdMap := perLayerPalIdMap out @ [palIds st],
                     perLayerTiles := perLayerTiles out @ [tileData st]\<rparr>"
    by (rule encodeLayer_Inr)
  from inv have cnt: "outLayerCount out = layerCount pl"
    and lens: "length (perLayerPalettes out) = n" "length (perLayerPalIdMap out) = n"
      "length (perLayerTiles out) = n"
    and old: "\<And>l. l < n \<Longrightarrow> layerInv img pl TX MP l (tileSet img TX) (layerOf out l)"
    unfolding outInv_def by blast+
  have new: "layerOf out' n = st"
    unfolding layerOf_def out' using lens by (simp add: nth_append)
  have keep: "layerOf out' l = layerOf out l" if "l < n" for l
    unfolding layerOf_def out' using lens that by (simp add: nth_append)
  have "layerInv img pl TX MP l (tileSet img TX) (layerOf out' l)" if "l < Suc n" for l
  proof (cases "l = n")
    case True
    with st new show ?thesis by simp
  next
    case False
    with that have "l < n" by simp
    with old[OF this] keep[OF this] show ?thesis by simp
  qed
  then show ?thesis
    unfolding outInv_def using cnt lens by (simp add: out')
qed

lemma encode_Inr:
  assumes "encode img maxL MP = Inr out"
  obtains pl where "width img mod 8 = 0" and "height img mod 8 = 0"
    and "buildLayeredPlan img (width img div 8) (height img div 8) maxL = Inr pl"
    and "forEach (encodeLayer img pl (width img div 8) (height img div 8) MP) [0..<layerCount pl]
           \<lparr>outLayerCount = layerCount pl, perLayerPalettes = [],
            perLayerPalIdMap = [], perLayerTiles = []\<rparr> = Inr out"
  using assms unfolding encode_def Let_def
  by (auto split: if_splits sum.splits)

text \<open>What a finished encode holds, layer by layer.\<close>

lemma encode_success:
  assumes "encode img maxL MP = Inr out"
  obtains pl where "width img mod 8 = 0" and "height img mod 8 = 0"
    and "buildLayeredPlan img (width img div 8) (height img div 8) maxL = Inr pl"
    and "outInv img pl (width img div 8) MP (layerCount pl) out"
proof -
  from assms obtain pl where dims: "width img mod 8 = 0" "height img mod 8 = 0"
    and pl: "buildLayeredPlan img (width img div 8) (height img div 8) maxL = Inr pl"
    and run: "forEach (encodeLayer img pl (width img div 8) (height img div 8) MP) [0..<layerCount pl]
           \<lparr>outLayerCount = layerCount pl, perLayerPalettes = [],
            perLayerPalIdMap = [], perLayerTiles = []\<rparr> = Inr out"
    by (rule encode_Inr)
  have "outInv img pl (width img div 8) MP (layerCount pl) out"
  proof (rule forEach_upt_rule[where P = "outInv img pl (width img div 8) MP", OF run])
    show "outInv img pl (width img div 8) MP 0
        \<lparr>outLayerCount = layerCount pl, perLayerPalettes = [],
            perLayerPalIdMap = [], perLayerTiles = []\<rparr>"
      by (simp add: outInv_def)
  next
    fix i s t
    assume b: "outInv img pl (width img div 8) MP i s"
      and c: "encodeLayer img pl (width img div 8) (height img div 8) MP i s = Inr t"
    show "outInv img pl (width img div 8) MP (Suc i) t"
      by (rule encodeLayer_step[OF b c])
  qed
  with dims pl show ?thesis by (rule that)
qed

section \<open>Bit packing\<close>


lemma fieldAt_byteOfFields:
  "fieldAt (byteOfFields c0 c1 c2 c3) 0 = c0 AND 3"
  "fieldAt (byteOfFields c0 c1 c2 c3) 2 = c1 AND 3"
  "fieldAt (byteOfFields c0 c1 c2 c3) 4 = c2 AND 3"
  "fieldAt (byteOfFields c0 c1 c2 c3) 6 = c3 AND 3"
  unfolding byteOfFields_def fieldAt_def and3 and255
  by (rule bit_eqI, auto simp add: bit_simps)+

lemma byteOfFields_sum:
  "byteOfFields c0 c1 c2 c3 = c0 mod 4 + 4 * (c1 mod 4) + 16 * (c2 mod 4) + 64 * (c3 mod 4)"
proof -
  let ?a = "take_bit 2 c0" and ?b = "push_bit 2 (take_bit 2 c1)"
    and ?c = "push_bit 4 (take_bit 2 c2)" and ?d = "push_bit 6 (take_bit 2 c3)"
  have 1: "?a + ?b = ?a OR ?b"
    by (rule disjunctive_add) (auto simp add: bit_simps)
  have 2: "(?a OR ?b) + ?c = (?a OR ?b) OR ?c"
    by (rule disjunctive_add) (auto simp add: bit_simps)
  have 3: "((?a OR ?b) OR ?c) + ?d = ((?a OR ?b) OR ?c) OR ?d"
    by (rule disjunctive_add) (auto simp add: bit_simps)
  have 4: "take_bit 8 (((?a OR ?b) OR ?c) OR ?d) = ((?a OR ?b) OR ?c) OR ?d"
    by (rule bit_eqI) (auto simp add: bit_simps)
  have "byteOfFields c0 c1 c2 c3 = take_bit 8 (((?a OR ?b) OR ?c) OR ?d)"
    unfolding byteOfFields_def and3 and255 by simp
  also have "\<dots> = ?a + ?b + ?c + ?d"
    unfolding 4 by (simp only: 1 2 3)
  finally show ?thesis
    by (simp add: take_bit_eq_mod push_bit_eq_mult)
qed

lemma packBlock_fields:
  "packBlock pix imgW x0 y0 m y block =
     byteOfFields
       (pixelIndex pix m (((y0 + y) * imgW + (x0 + ((if block = 0 then 7 else 3) - 0))) * 4))
       (pixelIndex pix m (((y0 + y) * imgW + (x0 + ((if block = 0 then 7 else 3) - 1))) * 4))
       (pixelIndex pix m (((y0 + y) * imgW + (x0 + ((if block = 0 then 7 else 3) - 2))) * 4))
       (pixelIndex pix m (((y0 + y) * imgW + (x0 + ((if block = 0 then 7 else 3) - 3))) * 4))"
  unfolding packBlock_def byteOfFields_def Let_def upt4
  by (simp only: fold.simps comp_apply id_apply)

lemma rows_length: "length (concat (map (\<lambda>y. [g y, h y]) [0..<n])) = 2 * n"
  by (induction n) simp_all

lemma rows_nth:
  assumes "y < n"
  shows "concat (map (\<lambda>y. [g y, h y]) [0..<n]) ! (2 * y) = g y"
    and "concat (map (\<lambda>y. [g y, h y]) [0..<n]) ! (2 * y + 1) = h y"
  using assms
proof (induction n)
  case 0
  {
    case 1
    then show ?case by simp
  next
    case 2
    then show ?case by simp
  }
next
  case (Suc n)
  {
    case 1
    show ?case
    proof (cases "y = n")
      case True
      then show ?thesis by (simp add: nth_append rows_length)
    next
      case False
      with 1 have y: "y < n" by simp
      with Suc.IH(1)[OF y] show ?thesis by (simp add: nth_append rows_length)
    qed
  next
    case 2
    show ?case
    proof (cases "y = n")
      case True
      then show ?thesis by (simp add: nth_append rows_length)
    next
      case False
      with 2 have y: "y < n" by simp
      with Suc.IH(2)[OF y] show ?thesis by (simp add: nth_append rows_length)
    qed
  }
qed

lemma encode_rows:
  "encodeNgpcTile2bppLayered pix imgW x0 y0 gk =
     concat (map (\<lambda>y. [packBlock pix imgW x0 y0 (buildIndexMap gk) y 0,
                        packBlock pix imgW x0 y0 (buildIndexMap gk) y 1]) [0..<8])"
  unfolding encodeNgpcTile2bppLayered_def Let_def upt2 by simp

lemma encode_length: "length (encodeNgpcTile2bppLayered pix imgW x0 y0 gk) = 16"
  unfolding encode_rows rows_length by simp

lemma encode_nth:
  assumes "y < 8"
  shows "encodeNgpcTile2bppLayered pix imgW x0 y0 gk ! (2 * y)
     = packBlock pix imgW x0 y0 (buildIndexMap gk) y 0"
    and "encodeNgpcTile2bppLayered pix imgW x0 y0 gk ! (2 * y + 1)
     = packBlock pix imgW x0 y0 (buildIndexMap gk) y 1"
  unfolding encode_rows by (rule rows_nth[OF assms])+

lemma encode_nth_Suc:
  "y < 8 \<Longrightarrow> encodeNgpcTile2bppLayered pix imgW x0 y0 gk ! Suc (2 * y)
     = packBlock pix imgW x0 y0 (buildIndexMap gk) y 1"
  using encode_nth(2)[of y pix imgW x0 y0 gk] by simp

text \<open>Reading a pixel back from the bytes gives its colour index, cut to two bits.\<close>

lemma tilePixel_encode:
  assumes x: "x < 8" and y: "y < 8"
  shows "tilePixel (encodeNgpcTile2bppLayered pix imgW x0 y0 gk) x y
    = pixelIndex pix (buildIndexMap gk) (((y0 + y) * imgW + (x0 + x)) * 4) AND 3"
proof -
  from x consider "x = 0" | "x = 1" | "x = 2" | "x = 3" | "x = 4" | "x = 5" | "x = 6" | "x = 7"
    by linarith
  then show ?thesis
  proof cases
    case 1
    then show ?thesis
      unfolding tilePixel_def by (simp add: encode_nth_Suc[OF y] packBlock_fields fieldAt_byteOfFields)
  next
    case 2
    then show ?thesis
      unfolding tilePixel_def by (simp add: encode_nth_Suc[OF y] packBlock_fields fieldAt_byteOfFields)
  next
    case 3
    then show ?thesis
      unfolding tilePixel_def by (simp add: encode_nth_Suc[OF y] packBlock_fields fieldAt_byteOfFields)
  next
    case 4
    then show ?thesis
      unfolding tilePixel_def by (simp add: encode_nth_Suc[OF y] packBlock_fields fieldAt_byteOfFields)
  next
    case 5
    then show ?thesis
      unfolding tilePixel_def by (simp add: encode_nth(1)[OF y] packBlock_fields fieldAt_byteOfFields)
  next
    case 6
    then show ?thesis
      unfolding tilePixel_def by (simp add: encode_nth(1)[OF y] packBlock_fields fieldAt_byteOfFields)
  next
    case 7
    then show ?thesis
      unfolding tilePixel_def by (simp add: encode_nth(1)[OF y] packBlock_fields fieldAt_byteOfFields)
  next
    case 8
    then show ?thesis
      unfolding tilePixel_def by (simp add: encode_nth(1)[OF y] packBlock_fields fieldAt_byteOfFields)
  qed
qed

section \<open>The index of a pixel\<close>

lemma pixelIndex_transparent:
  "pixelAlpha pix idx = 0 \<Longrightarrow> pixelIndex pix m idx = 0"
  by (simp add: pixelIndex_def pixelAlpha_def)

lemma pixelIndex_masked:
  "pixelKey pix idx \<notin> set gk \<Longrightarrow> pixelIndex pix (buildIndexMap gk) idx = 0"
  by (simp add: pixelIndex_def pixelKey_def buildIndexMap_None Let_def)

lemma pixelIndex_member:
  assumes "distinct gk" and "length gk \<le> 3" and "i < length gk"
    and "pixelKey pix idx = gk ! i" and "pixelAlpha pix idx \<noteq> 0"
  shows "pixelIndex pix (buildIndexMap gk) idx = i + 1"
proof -
  from assms(2,3) have "i + 1 \<le> 3" by simp
  then have "(i + 1) AND 3 = i + 1" by (rule and3_small)
  with buildIndexMap_nth[OF assms(1,3)] have "buildIndexMap gk (pixelKey pix idx) = Some (i + 1)"
    unfolding assms(4) by simp
  with assms(5) show ?thesis
    by (simp add: pixelIndex_def pixelKey_def pixelAlpha_def Let_def)
qed

section \<open>Example images\<close>


lemma demoPixels_nth: "i < 256 \<Longrightarrow> demoPixels ! i = demoByte i"
  by (simp add: demoPixels_def del: upt_rec_numeral)

lemma demoPixels_length: "length demoPixels = 256"
  by (simp add: demoPixels_def del: upt_rec_numeral)

lemma blankPixels_nth: "i < 256 \<Longrightarrow> blankPixels ! i = 0"
  by (simp add: blankPixels_def)

lemma blankPixels_length: "length blankPixels = 256"
  by (simp add: blankPixels_def)

lemma demo_collect:
  "collectTile demoPixels 8 0 0 =
     ({(16, 0, 0, 255), (32, 0, 0, 255), (48, 0, 0, 255), (64, 0, 0, 255)},
      [(16, 0, 0, 255), (32, 0, 0, 255), (48, 0, 0, 255), (64, 0, 0, 255)])"
  by (simp add: collectTile_def upt8 collectPixel_def demoPixels_nth demoByte_def rgbaKey_def
      Let_def insert_commute)

lemma demo_colors:
  "tileColors demoPixels 8 0 0 = [(16, 0, 0, 255), (32, 0, 0, 255), (48, 0, 0, 255), (64, 0, 0, 255)]"
  by (simp add: tileColors_def demo_collect sortKeys_def)

lemma blank_collect: "collectTile blankPixels 8 0 0 = ({}, [])"
  by (simp add: collectTile_def upt8 collectPixel_def blankPixels_nth)

lemma blank_colors: "tileColors blankPixels 8 0 0 = []"
  by (simp add: tileColors_def blank_collect sortKeys_def)

lemma indexMap_values:
  "Suc 0 AND 3 = 1" "Suc (Suc 0) AND 3 = 2" "Suc (Suc (Suc 0)) AND 3 = 3"
  by (simp_all add: and3_small)

lemma buildIndexMap_3: "buildIndexMap [a, b, c] = [a \<mapsto> 1, b \<mapsto> 2, c \<mapsto> 3]"
  by (simp add: buildIndexMap_def indexMap_values)

lemma buildIndexMap_1: "buildIndexMap [a] = [a \<mapsto> 1]"
  by (simp add: buildIndexMap_def indexMap_values)

lemma buildIndexMap_0: "buildIndexMap [] = Map.empty"
  by (simp add: buildIndexMap_def)

lemma demo_tile0:
  "encodeNgpcTile2bppLayered demoPixels 8 0 0 [(16, 0, 0, 255), (32, 0, 0, 255), (48, 0, 0, 255)]
     = [108, 0, 108, 0, 108, 0, 108, 0, 108, 0, 108, 0, 108, 0, 108, 0]"
  by (simp add: encode_rows upt8 packBlock_fields byteOfFields_sum pixelIndex_def
      demoPixels_nth demoByte_def rgbaKey_def buildIndexMap_3 Let_def)

lemma demo_tile1:
  "encodeNgpcTile2bppLayered demoPixels 8 0 0 [(64, 0, 0, 255)]
     = [1, 0, 1, 0, 1, 0, 1, 0, 1, 0, 1, 0, 1, 0, 1, 0]"
  by (simp add: encode_rows upt8 packBlock_fields byteOfFields_sum pixelIndex_def
      demoPixels_nth demoByte_def rgbaKey_def buildIndexMap_1 Let_def)

lemma blank_tile:
  "encodeNgpcTile2bppLayered blankPixels 8 0 0 []
     = [0, 0, 0, 0, 0, 0, 0, 0, 0, 0, 0, 0, 0, 0, 0, 0]"
  by (simp add: encode_rows upt8 packBlock_fields byteOfFields_sum pixelIndex_def
      blankPixels_nth buildIndexMap_0 Let_def)

lemma list_update_numeral: "(x # xs)[numeral v := y] = x # xs[pred_numeral v := y]"
  by (simp add: numeral_eq_Suc)

lemma planTile_unfold:
  "planTile img TX maxL fi ty tx st =
     (if ceil3 (length (colorsAt img fi ty tx)) > maxL
      then Inl (LayerOverflow tx ty fi (length (colorsAt img fi ty tx)) maxL (maxL * 3))
      else Inr (max (ceil3 (length (colorsAt img fi ty tx))) (fst st),
                fillChunks (colorsAt img fi ty tx) (ceil3 (length (colorsAt img fi ty tx))) fi
                  (ty * TX + tx) (clearLayers maxL fi (ty * TX + tx) (snd st))))"
  by (simp add: planTile_def colorsAt_def Let_def max_def)

lemma demo_colorsAt:
  "colorsAt demoImage 0 0 0 = [(16, 0, 0, 255), (32, 0, 0, 255), (48, 0, 0, 255), (64, 0, 0, 255)]"
  "colorsAt demoImage (Suc 0) 0 0 = []"
  "colorsAt demoImage 2 0 0 = [(16, 0, 0, 255), (32, 0, 0, 255), (48, 0, 0, 255), (64, 0, 0, 255)]"
  by (simp_all add: colorsAt_def demoImage_def demo_colors blank_colors)

lemma clearLayers_3:
  "clearLayers 3 fi t g = setGroup (setGroup (setGroup g 0 fi t []) 1 fi t []) 2 fi t []"
  by (simp add: clearLayers_def upt3)

lemma fillChunks_2:
  "fillChunks lst 2 fi t g = setGroup (setGroup g 0 fi t (slice lst 0 3)) 1 fi t (slice lst 3 6)"
  by (simp add: fillChunks_def upt2 Let_def)

lemma fillChunks_0: "fillChunks lst 0 fi t g = g"
  by (simp add: fillChunks_def)

lemma demo_planTile0:
  "planTile demoImage (Suc 0) 3 0 0 0 (Suc 0, [[[[]], [[]], [[]]], [[[]], [[]], [[]]], [[[]], [[]], [[]]]])
   = Inr (2, [[[[(16, 0, 0, 255), (32, 0, 0, 255), (48, 0, 0, 255)]], [[]], [[]]],
              [[[(64, 0, 0, 255)]], [[]], [[]]], [[[]], [[]], [[]]]])"
  by (simp add: planTile_unfold demo_colorsAt ceil3_code clearLayers_3 fillChunks_2 setGroup_def
      slice_def list_update_numeral)


lemma demo_planTile1:
  "planTile demoImage (Suc 0) 3 (Suc 0) 0 0
     (2, [[[[(16, 0, 0, 255), (32, 0, 0, 255), (48, 0, 0, 255)]], [[]], [[]]],
          [[[(64, 0, 0, 255)]], [[]], [[]]], [[[]], [[]], [[]]]])
   = Inr (2, [[[[(16, 0, 0, 255), (32, 0, 0, 255), (48, 0, 0, 255)]], [[]], [[]]],
              [[[(64, 0, 0, 255)]], [[]], [[]]], [[[]], [[]], [[]]]])"
  by (simp add: planTile_unfold demo_colorsAt ceil3_code clearLayers_3 fillChunks_0 setGroup_def
      slice_def list_update_numeral)

lemma demo_planTile2:
  "planTile demoImage (Suc 0) 3 2 0 0
     (2, [[[[(16, 0, 0, 255), (32, 0, 0, 255), (48, 0, 0, 255)]], [[]], [[]]],
          [[[(64, 0, 0, 255)]], [[]], [[]]], [[[]], [[]], [[]]]])
   = Inr (2, [[[[(16, 0, 0, 255), (32, 0, 0, 255), (48, 0, 0, 255)]], [[]],
               [[(16, 0, 0, 255), (32, 0, 0, 255), (48, 0, 0, 255)]]],
              [[[(64, 0, 0, 255)]], [[]], [[(64, 0, 0, 255)]]], [[[]], [[]], [[]]]])"
  by (simp add: planTile_unfold demo_colorsAt ceil3_code clearLayers_3 fillChunks_2 setGroup_def
      slice_def list_update_numeral)

lemma upt1: "[0..<1] = [0]" by simp

lemma replicate_3: "replicate 3 x = [x, x, x]"
  by (simp add: numeral_3_eq_3)

lemma demo_frameCount: "frameCount demoImage = 3"
  by (simp add: frameCount_def demoImage_def)

lemma demo_plan:
  "buildLayeredPlan demoImage (Suc 0) (Suc 0) 3 =
     Inr \<lparr>layerCount = 2,
          groups = [[[[(16, 0, 0, 255), (32, 0, 0, 255), (48, 0, 0, 255)]], [[]],
                     [[(16, 0, 0, 255), (32, 0, 0, 255), (48, 0, 0, 255)]]],
                    [[[(64, 0, 0, 255)]], [[]], [[(64, 0, 0, 255)]]]]\<rparr>"
  unfolding buildLayeredPlan_def Let_def demo_frameCount upt3
  by (simp add: replicate_3 demo_planTile0 demo_planTile1 demo_planTile2)

text \<open>With room for one layer only, the first tile of the example is over budget.\<close>

lemma demo_plan_overflow:
  "buildLayeredPlan demoImage (Suc 0) (Suc 0) (Suc 0) = Inl (LayerOverflow 0 0 0 4 (Suc 0) 3)"
  unfolding buildLayeredPlan_def Let_def demo_frameCount upt3
  by (simp add: planTile_unfold demo_colorsAt ceil3_code)

lemma demo_palettes:
  "buildTilePaletteRgb444 [(16, 0, 0, 255), (32, 0, 0, 255), (48, 0, 0, 255)] = [0, 1, 2, 3]"
  "buildTilePaletteRgb444 [(64, 0, 0, 255)] = [0, 4, 0, 0]"
  "buildTilePaletteRgb444 [] = [0, 0, 0, 0]"
  by (simp_all add: buildTilePaletteRgb444_slots paletteSlot_def rgbToRgb444_arith)

lemma demo_frames:
  "frames demoImage ! 0 = demoPixels" "frames demoImage ! Suc 0 = blankPixels"
  "frames demoImage ! 2 = demoPixels" "width demoImage = 8" "height demoImage = 8"
  by (simp_all add: demoImage_def)


lemma demo_plan_eq: "buildLayeredPlan demoImage (Suc 0) (Suc 0) 3 = Inr demoPlan"
  by (simp add: demo_plan demoPlan_def)

lemma demo_layer0:
  "encodeLayer demoImage demoPlan (Suc 0) (Suc 0) 16 0
     \<lparr>outLayerCount = 2, perLayerPalettes = [], perLayerPalIdMap = [], perLayerTiles = []\<rparr>
   = Inr demoOut0"
  unfolding encodeLayer_def encodeFrame_def demo_frameCount upt3 demoPlan_def demoOut0_def
  by (simp add: encodeTileStep_def Let_def demo_frames demo_palettes demo_tile0 blank_tile
      findOrAddPalette_def samePalette_def setCell_def replicate_3 list_update_numeral)

lemma demo_layer1:
  "encodeLayer demoImage demoPlan (Suc 0) (Suc 0) 16 (Suc 0) demoOut0 = Inr demoOut"
  unfolding encodeLayer_def encodeFrame_def demo_frameCount upt3 demoPlan_def demoOut0_def demoOut_def
  by (simp add: encodeTileStep_def Let_def demo_frames demo_palettes demo_tile1 blank_tile
      findOrAddPalette_def samePalette_def setCell_def replicate_3 list_update_numeral)

text \<open>The whole output for the example image with the sprite limits.\<close>

lemma demo_encode: "encode demoImage 3 16 = Inr demoOut"
proof -
  have lc: "layerCount demoPlan = 2" by (simp add: demoPlan_def)
  show ?thesis
    unfolding encode_def Let_def
    by (simp add: demo_frames demo_plan_eq lc upt2 demo_layer0 demo_layer1)
qed


lemma demo_encode_layer_overflow:
  "encode demoImage (Suc 0) 16 = Inl (LayerOverflow 0 0 0 4 (Suc 0) 3)"
  unfolding encode_def Let_def
  by (simp add: demo_frames demo_plan_overflow)

lemma blank_frames:
  "frames blankImage ! 0 = blankPixels" "width blankImage = 8" "height blankImage = 8"
  "frameCount blankImage = Suc 0"
  by (simp_all add: blankImage_def frameCount_def)

lemma blank_colorsAt: "colorsAt blankImage 0 0 0 = []"
  by (simp add: colorsAt_def blank_frames blank_colors)

lemma blank_plan:
  "buildLayeredPlan blankImage (Suc 0) (Suc 0) 3 = Inr \<lparr>layerCount = Suc 0, groups = [[[[]]]]\<rparr>"
  unfolding buildLayeredPlan_def Let_def blank_frames
  by (simp add: planTile_unfold blank_colorsAt ceil3_code clearLayers_3 fillChunks_0 setGroup_def
      replicate_3 list_update_numeral)

lemma blank_encode:
  "encode blankImage 3 16 =
     Inr \<lparr>outLayerCount = Suc 0, perLayerPalettes = [[[0, 0, 0, 0]]], perLayerPalIdMap = [[[0]]],
          perLayerTiles = [[[[0, 0, 0, 0, 0, 0, 0, 0, 0, 0, 0, 0, 0, 0, 0, 0]]]]\<rparr>"
  unfolding encode_def Let_def
  by (simp add: blank_frames blank_plan encodeLayer_def encodeFrame_def
      encodeTileStep_def Let_def demo_palettes blank_tile
      findOrAddPalette_def samePalette_def setCell_def)

section \<open>Slices of the colour list\<close>

lemma colorsAt_props:
  "set (colorsAt img fi ty tx) = opaqueColors (frames img ! fi) (width img) tx ty"
  "distinct (colorsAt img fi ty tx)"
  "sorted_wrt keyLess (colorsAt img fi ty tx)"
  "length (colorsAt img fi ty tx) = colorCount img fi ty tx"
proof -
  note p = tileColors_props[of "frames img ! fi" "width img" tx ty]
  from p show "set (colorsAt img fi ty tx) = opaqueColors (frames img ! fi) (width img) tx ty"
    and d: "distinct (colorsAt img fi ty tx)" and "sorted_wrt keyLess (colorsAt img fi ty tx)"
    by (simp_all add: colorsAt_def)
  from p distinct_card[OF d] show "length (colorsAt img fi ty tx) = colorCount img fi ty tx"
    by (simp add: colorsAt_def colorCount_def)
qed

lemma slice_length: "length (slice xs (c * 3) (c * 3 + 3)) = min 3 (length xs - c * 3)"
  by (simp add: slice_def)

lemma slice_nth:
  fixes xs :: "'a list"
  assumes "i < length (slice xs (c * 3) (c * 3 + 3))"
  shows "slice xs (c * 3) (c * 3 + 3) ! i = xs ! (c * 3 + i)"
proof -
  from assms have i: "i < 3" and l: "i < length xs - c * 3" by (simp_all add: slice_def)
  from l have "c * 3 \<le> length xs" by linarith
  with i show ?thesis by (simp add: slice_def)
qed

lemma slice_distinct: "distinct xs \<Longrightarrow> distinct (slice xs s e)"
  by (simp add: slice_def)

lemma slice_set_subset: "set (slice xs s e) \<subseteq> set xs"
  unfolding slice_def by (meson set_take_subset set_drop_subset subset_trans)

text \<open>Element \<open>p\<close> of a list lies in chunk \<open>p div 3\<close>, at position \<open>p mod 3\<close>.\<close>

lemma slice_own:
  assumes "p < length xs"
  shows "p mod 3 < length (slice xs (p div 3 * 3) (p div 3 * 3 + 3))"
    and "slice xs (p div 3 * 3) (p div 3 * 3 + 3) ! (p mod 3) = xs ! p"
proof -
  have e: "p div 3 * 3 + p mod 3 = p" by simp
  from assms e have "p mod 3 < length xs - p div 3 * 3" by linarith
  then show l: "p mod 3 < length (slice xs (p div 3 * 3) (p div 3 * 3 + 3))"
    by (simp add: slice_length)
  show "slice xs (p div 3 * 3) (p div 3 * 3 + 3) ! (p mod 3) = xs ! p"
    unfolding slice_nth[OF l] e ..
qed

lemma slice_other:
  assumes "distinct xs" and "p < length xs" and "c \<noteq> p div 3"
  shows "xs ! p \<notin> set (slice xs (c * 3) (c * 3 + 3))"
proof
  assume "xs ! p \<in> set (slice xs (c * 3) (c * 3 + 3))"
  then obtain i where i: "i < length (slice xs (c * 3) (c * 3 + 3))"
    and eq: "slice xs (c * 3) (c * 3 + 3) ! i = xs ! p"
    by (auto simp: in_set_conv_nth)
  from i have i3: "i < 3" and "i < length xs - c * 3" by (simp_all add: slice_length)
  then have il: "c * 3 + i < length xs" by linarith
  from eq have "xs ! (c * 3 + i) = xs ! p" unfolding slice_nth[OF i] .
  with assms(1,2) il have "c * 3 + i = p" by (simp add: nth_eq_iff_index_eq)
  with i3 have "p div 3 = c" by auto
  with assms(3) show False by simp
qed

lemma concat_slices: "concat (map (\<lambda>c. slice xs (c * 3) (c * 3 + 3)) [0..<n]) = take (n * 3) xs"
proof (induction n)
  case 0
  then show ?case by simp
next
  case (Suc n)
  have "take (Suc n * 3) xs = take (n * 3) xs @ take 3 (drop (n * 3) xs)"
    using take_add[of "n * 3" 3 xs] by (simp add: add.commute)
  with Suc show ?case by (simp add: slice_def)
qed

section \<open>Drawing the layers\<close>

lemma fold_draw_none:
  "(\<And>l. l < n \<Longrightarrow> f l = (\<lambda>bg. bg)) \<Longrightarrow> fold f [0..<n] bg = bg"
  by (induction n) simp_all

lemma fold_draw_single:
  assumes "l0 < n" and "f l0 = (\<lambda>bg. v)" and "\<And>l. l < n \<Longrightarrow> l \<noteq> l0 \<Longrightarrow> f l = (\<lambda>bg. bg)"
  shows "fold f [0..<n] bg = v"
  using assms(1,3)
proof (induction n)
  case 0
  then show ?case by simp
next
  case (Suc n)
  show ?case
  proof (cases "l0 = n")
    case True
    have "f n (fold f [0..<n] bg) = v"
      using assms(2) unfolding True by simp
    then show ?thesis by simp
  next
    case False
    with Suc.prems(1) have l0: "l0 < n" by simp
    from False Suc.prems(2)[of n] have fn: "f n = (\<lambda>bg. bg)" by simp
    have "fold f [0..<n] bg = v"
      by (rule Suc.IH[OF l0]) (rule Suc.prems(2), simp_all)
    with fn show ?thesis by simp
  qed
qed

section \<open>Facts about the example images\<close>

lemma demo_wellFormed: "wellFormed demoImage"
  by (simp add: wellFormed_def demoImage_def demoPixels_length blankPixels_length)

lemma blank_wellFormed: "wellFormed blankImage"
  by (simp add: wellFormed_def blankImage_def blankPixels_length)

lemma demo_tiles: "tilesX demoImage = Suc 0" "tilesY demoImage = Suc 0"
  by (simp_all add: tilesX_def tilesY_def demoImage_def)

lemma blank_tiles: "tilesX blankImage = Suc 0" "tilesY blankImage = Suc 0"
  by (simp_all add: tilesX_def tilesY_def blankImage_def)

lemma encode_plan_error:
  "width img mod 8 = 0 \<Longrightarrow> height img mod 8 = 0 \<Longrightarrow>
   buildLayeredPlan img (tilesX img) (tilesY img) maxL = Inl e \<Longrightarrow> encode img maxL MP = Inl e"
  by (simp add: encode_def tilesX_def tilesY_def)

section \<open>Layer overflow\<close>

text \<open>
  C8. For a well-formed image, the planning pass \<^verbatim>\<open>buildLayeredPlan_\<close> fails exactly when
  some tile of some frame has a number \<open>n\<close> of distinct opaque colours with
  \<open>ceil (n / 3) > maxLayers\<close>, which is the same as \<open>n > maxLayers * 3\<close>. When it fails, the
  error names the first such tile in scan order: its coordinates, its frame, its colour
  count, \<open>maxLayers\<close> and the budget \<open>maxLayers * 3\<close>; and the whole encode returns that error
  and no output.
\<close>

theorem layer_overflow:
  assumes "wellFormed img"
  shows "((\<exists>e. buildLayeredPlan img (tilesX img) (tilesY img) maxL = Inl e) \<longleftrightarrow>
            (\<exists>fi ty tx. fi < frameCount img \<and> ty < tilesY img \<and> tx < tilesX img
               \<and> maxL < ceil3 (colorCount img fi ty tx)))
     \<and> (maxL < ceil3 n \<longleftrightarrow> maxL * 3 < n)
     \<and> (\<forall>e. buildLayeredPlan img (tilesX img) (tilesY img) maxL = Inl e \<longrightarrow>
           (\<exists>before fi ty tx after.
              allTiles img (tilesX img) (tilesY img) = before @ (fi, ty, tx) # after
              \<and> (\<forall>(f, y, x) \<in> set before. colorCount img f y x \<le> maxL * 3)
              \<and> fi < frameCount img \<and> ty < tilesY img \<and> tx < tilesX img
              \<and> maxL * 3 < colorCount img fi ty tx
              \<and> e = LayerOverflow tx ty fi (colorCount img fi ty tx) maxL (maxL * 3)))
     \<and> (\<forall>e. buildLayeredPlan img (tilesX img) (tilesY img) maxL = Inl e \<longrightarrow>
           width img mod 8 = 0 \<longrightarrow> height img mod 8 = 0 \<longrightarrow> encode img maxL MP = Inl e)"
proof (intro conjI allI impI)
  have over: "overBudget img maxL (fi, ty, tx) \<longleftrightarrow> maxL < ceil3 (colorCount img fi ty tx)" for fi ty tx
    by (simp add: overBudget_def colorsAt_props(4))
  show "(\<exists>e. buildLayeredPlan img (tilesX img) (tilesY img) maxL = Inl e) \<longleftrightarrow>
            (\<exists>fi ty tx. fi < frameCount img \<and> ty < tilesY img \<and> tx < tilesX img
               \<and> maxL < ceil3 (colorCount img fi ty tx))"
    unfolding plan_fails_iff set_allTiles by (auto simp: over)
  show "maxL < ceil3 n \<longleftrightarrow> maxL * 3 < n" by (rule ceil3_gt_iff)
  show "\<exists>before fi ty tx after.
              allTiles img (tilesX img) (tilesY img) = before @ (fi, ty, tx) # after
              \<and> (\<forall>(f, y, x) \<in> set before. colorCount img f y x \<le> maxL * 3)
              \<and> fi < frameCount img \<and> ty < tilesY img \<and> tx < tilesX img
              \<and> maxL * 3 < colorCount img fi ty tx
              \<and> e = LayerOverflow tx ty fi (colorCount img fi ty tx) maxL (maxL * 3)"
    if fail: "buildLayeredPlan img (tilesX img) (tilesY img) maxL = Inl e" for e
  proof -
    from plan_failure[OF fail] obtain ys fi ty tx zs where
      split: "allTiles img (tilesX img) (tilesY img) = ys @ (fi, ty, tx) # zs"
      and ok: "\<forall>tile \<in> set ys. \<not> overBudget img maxL tile"
      and bad: "overBudget img maxL (fi, ty, tx)"
      and e: "e = LayerOverflow tx ty fi (length (colorsAt img fi ty tx)) maxL (maxL * 3)"
      by blast
    have "(fi, ty, tx) \<in> set (allTiles img (tilesX img) (tilesY img))" unfolding split by simp
    then have r: "fi < frameCount img" "ty < tilesY img" "tx < tilesX img"
      unfolding set_allTiles by simp_all
    from ok have ok': "\<forall>(f, y, x) \<in> set ys. colorCount img f y x \<le> maxL * 3"
      by (auto simp: over ceil3_gt_iff not_less)
    from bad have bad': "maxL * 3 < colorCount img fi ty tx" by (simp add: over ceil3_gt_iff)
    from split ok' r bad' e show ?thesis
      unfolding colorsAt_props(4) by blast
  qed
  show "encode img maxL MP = Inl e"
    if "buildLayeredPlan img (tilesX img) (tilesY img) maxL = Inl e"
      and "width img mod 8 = 0" and "height img mod 8 = 0" for e
    using that by (simp add: encode_plan_error)
qed

theorem layer_overflow_witness:
  "wellFormed demoImage
   \<and> buildLayeredPlan demoImage (tilesX demoImage) (tilesY demoImage) 1
       = Inl (LayerOverflow 0 0 0 4 1 3)
   \<and> (\<exists>fi ty tx. fi < frameCount demoImage \<and> ty < tilesY demoImage \<and> tx < tilesX demoImage
         \<and> 1 < ceil3 (colorCount demoImage fi ty tx))
   \<and> encode demoImage 1 16 = Inl (LayerOverflow 0 0 0 4 1 3)"
proof -
  have fail: "buildLayeredPlan demoImage (tilesX demoImage) (tilesY demoImage) 1
       = Inl (LayerOverflow 0 0 0 4 1 3)"
    using demo_plan_overflow by (simp add: demo_tiles)
  note t = layer_overflow[OF demo_wellFormed, of 1 0 16]
  from t fail have "\<exists>fi ty tx. fi < frameCount demoImage \<and> ty < tilesY demoImage \<and> tx < tilesX demoImage
         \<and> 1 < ceil3 (colorCount demoImage fi ty tx)"
    by blast
  moreover from t fail have "encode demoImage 1 16 = Inl (LayerOverflow 0 0 0 4 1 3)"
    by (simp add: demo_frames)
  ultimately show ?thesis using fail demo_wellFormed by simp
qed

section \<open>Layer count\<close>

lemma encode_layerCount:
  assumes "encode img maxL MP = Inr out"
  obtains pl where "buildLayeredPlan img (tilesX img) (tilesY img) maxL = Inr pl"
    and "outLayerCount out = layerCount pl"
proof -
  from assms obtain pl where pl: "buildLayeredPlan img (width img div 8) (height img div 8) maxL = Inr pl"
    and inv: "outInv img pl (width img div 8) MP (layerCount pl) out"
    by (rule encode_success)
  from inv have "outLayerCount out = layerCount pl" by (simp add: outInv_def)
  with pl show ?thesis by (intro that[of pl]) (simp_all add: tilesX_def tilesY_def)
qed

text \<open>
  C3, as the code has it. \<^verbatim>\<open>neededLayers\<close> starts at 1, so for a well-formed image that
  encodes with \<open>maxLayers \<ge> 1\<close> the output layer count is the maximum of 1 and of
  \<open>ceil (n / 3)\<close> over all tiles of all frames, \<open>n\<close> being the tile's number of distinct
  opaque colours; it is at least 1 and at most \<open>maxLayers\<close>.
\<close>

theorem layer_count:
  assumes "wellFormed img" and "1 \<le> maxL" and "encode img maxL MP = Inr out"
  shows "outLayerCount out =
           Max (insert 1 {ceil3 (colorCount img fi ty tx) | fi ty tx.
                            fi < frameCount img \<and> ty < tilesY img \<and> tx < tilesX img})
     \<and> 1 \<le> outLayerCount out \<and> outLayerCount out \<le> maxL"
proof -
  let ?S = "{ceil3 (colorCount img fi ty tx) | fi ty tx.
               fi < frameCount img \<and> ty < tilesY img \<and> tx < tilesX img}"
  from assms(3) obtain pl where pl: "buildLayeredPlan img (tilesX img) (tilesY img) maxL = Inr pl"
    and cnt: "outLayerCount out = layerCount pl"
    by (rule encode_layerCount)
  note s = plan_success[OF pl assms(2)]
  have ub: "y \<le> layerCount pl" if "y \<in> insert 1 ?S" for y
    using that s(1) s(4) by (auto simp: colorsAt_props(4))
  then have "insert 1 ?S \<subseteq> {..layerCount pl}" by blast
  then have fin: "finite (insert 1 ?S)" by (rule finite_subset) simp
  have mem: "layerCount pl \<in> insert 1 ?S"
    using s(6) by (auto simp: colorsAt_props(4))
  have "Max (insert 1 ?S) = layerCount pl"
    by (rule Max_eqI[OF fin ub mem])
  with s(1) s(2) cnt show ?thesis by simp
qed

theorem layer_count_witness:
  "wellFormed demoImage \<and> (1::nat) \<le> 3 \<and> encode demoImage 3 16 = Inr demoOut
   \<and> outLayerCount demoOut = 2
   \<and> Max (insert 1 {ceil3 (colorCount demoImage fi ty tx) | fi ty tx.
         fi < frameCount demoImage \<and> ty < tilesY demoImage \<and> tx < tilesX demoImage}) = 2"
proof -
  have two: "outLayerCount demoOut = 2" by (simp add: demoOut_def)
  from layer_count[OF demo_wellFormed _ demo_encode] two show ?thesis
    by (simp add: demo_wellFormed demo_encode)
qed

text \<open>
  The claim as written fails on a fully transparent 8x8 image of one frame: its only tile
  has no opaque colour, so the maximum of \<open>ceil (n / 3)\<close> is 0, and the encode returns a
  layer count of 1.
\<close>

theorem layer_count_counterexample:
  "encode blankImage 3 16 =
     Inr \<lparr>outLayerCount = 1, perLayerPalettes = [[[0, 0, 0, 0]]], perLayerPalIdMap = [[[0]]],
          perLayerTiles = [[[[0, 0, 0, 0, 0, 0, 0, 0, 0, 0, 0, 0, 0, 0, 0, 0]]]]\<rparr>
   \<and> allTiles blankImage (tilesX blankImage) (tilesY blankImage) = [(0, 0, 0)]
   \<and> ceil3 (colorCount blankImage 0 0 0) = 0"
proof -
  have "colorCount blankImage 0 0 0 = 0"
    using colorsAt_props(4)[of blankImage 0 0 0] by (simp add: blank_colorsAt)
  then show ?thesis
    by (simp add: blank_encode allTiles_def blank_tiles blank_frames ceil3_code)
qed

section \<open>Colour partition\<close>

text \<open>
  C2. Take a well-formed image whose planning pass succeeds with \<open>maxLayers \<ge> 1\<close>, and a tile
  \<open>(tx, ty)\<close> of a frame \<open>fi\<close>. Its colour list \<open>lst\<close> holds exactly the distinct opaque
  \<open>(R,G,B,A)\<close> colours of its 64 pixels, without repetition, in ascending lexicographic
  order. Group \<open>c\<close> of the tile is \<open>lst[3c : 3c+3]\<close> for every layer \<open>c\<close> of the plan; the
  groups, one after the other, give back \<open>lst\<close>, so their union is the tile's colour set;
  two different layers share no colour; and the layers from \<open>ceil (|lst| / 3)\<close> on have an
  empty group.
\<close>

theorem color_partition:
  assumes "wellFormed img" and "1 \<le> maxL"
    and "buildLayeredPlan img (tilesX img) (tilesY img) maxL = Inr pl"
    and "fi < frameCount img" and "ty < tilesY img" and "tx < tilesX img"
  shows "set (colorsAt img fi ty tx) = opaqueColors (frames img ! fi) (width img) tx ty
     \<and> distinct (colorsAt img fi ty tx) \<and> sorted_wrt keyLess (colorsAt img fi ty tx)
     \<and> length (groups pl) = layerCount pl
     \<and> (\<forall>c < layerCount pl. groups pl ! c ! fi ! (ty * tilesX img + tx)
            = slice (colorsAt img fi ty tx) (3 * c) (3 * c + 3))
     \<and> concat (map (\<lambda>c. groups pl ! c ! fi ! (ty * tilesX img + tx)) [0..<layerCount pl])
            = colorsAt img fi ty tx
     \<and> (\<Union>c < layerCount pl. set (groups pl ! c ! fi ! (ty * tilesX img + tx)))
            = opaqueColors (frames img ! fi) (width img) tx ty
     \<and> (\<forall>c < layerCount pl. \<forall>c' < layerCount pl. c \<noteq> c' \<longrightarrow>
            set (groups pl ! c ! fi ! (ty * tilesX img + tx))
              \<inter> set (groups pl ! c' ! fi ! (ty * tilesX img + tx)) = {})
     \<and> (\<forall>c < layerCount pl. ceil3 (length (colorsAt img fi ty tx)) \<le> c \<longrightarrow>
            groups pl ! c ! fi ! (ty * tilesX img + tx) = [])"
proof -
  let ?lst = "colorsAt img fi ty tx"
  let ?g = "\<lambda>c. groups pl ! c ! fi ! (ty * tilesX img + tx)"
  note s = plan_success[OF assms(3) assms(2)]
  note p = colorsAt_props[of img fi ty tx]
  have grp: "?g c = slice ?lst (c * 3) (c * 3 + 3)" if "c < layerCount pl" for c
    by (rule s(5)[OF assms(4-6) that])
  have len: "length (groups pl) = layerCount pl"
    using s(3) by (simp add: groupsShape_def)
  have enough: "length ?lst \<le> layerCount pl * 3"
    using s(4)[OF assms(4-6)] by (simp add: ceil3_le_iff)
  have m: "map ?g [0..<layerCount pl] = map (\<lambda>c. slice ?lst (c * 3) (c * 3 + 3)) [0..<layerCount pl]"
    by (rule map_cong) (simp_all add: grp)
  have cat: "concat (map ?g [0..<layerCount pl]) = ?lst"
    unfolding m concat_slices using enough by simp
  have "(\<Union>c < layerCount pl. set (?g c)) = set (concat (map ?g [0..<layerCount pl]))"
    by (auto simp: lessThan_atLeast0)
  then have un: "(\<Union>c < layerCount pl. set (?g c)) = opaqueColors (frames img ! fi) (width img) tx ty"
    unfolding cat p(1) .
  have disj: "set (?g c) \<inter> set (?g c') = {}"
    if c: "c < layerCount pl" and c': "c' < layerCount pl" and ne: "c \<noteq> c'" for c c'
  proof (rule ccontr)
    assume "set (?g c) \<inter> set (?g c') \<noteq> {}"
    then obtain k where k: "k \<in> set (?g c)" and k': "k \<in> set (?g c')" by blast
    from k slice_set_subset[of ?lst "c * 3" "c * 3 + 3"] have "k \<in> set ?lst"
      unfolding grp[OF c] by blast
    then obtain q where q: "q < length ?lst" and kq: "?lst ! q = k"
      by (auto simp: in_set_conv_nth)
    have "c = q div 3"
      using slice_other[OF p(2) q, of c] k unfolding grp[OF c] kq by blast
    moreover have "c' = q div 3"
      using slice_other[OF p(2) q, of c'] k' unfolding grp[OF c'] kq by blast
    ultimately show False using ne by simp
  qed
  have empty: "?g c = []" if c: "c < layerCount pl" and "ceil3 (length ?lst) \<le> c" for c
  proof -
    from that(2) have "length ?lst \<le> c * 3" by (simp add: ceil3_le_iff)
    then show ?thesis unfolding grp[OF c] by (rule slice_beyond)
  qed
  have grp': "\<forall>c < layerCount pl. ?g c = slice ?lst (3 * c) (3 * c + 3)"
    using grp by (simp add: mult.commute)
  from p(1) p(2) p(3) len grp' cat un disj empty show ?thesis by blast
qed

theorem color_partition_witness:
  "wellFormed demoImage \<and> (1::nat) \<le> 3
   \<and> buildLayeredPlan demoImage (tilesX demoImage) (tilesY demoImage) 3 = Inr demoPlan
   \<and> (0::nat) < frameCount demoImage \<and> 0 < tilesY demoImage \<and> 0 < tilesX demoImage
   \<and> groups demoPlan ! 0 ! 0 ! 0 @ groups demoPlan ! 1 ! 0 ! 0
        = [(16, 0, 0, 255), (32, 0, 0, 255), (48, 0, 0, 255), (64, 0, 0, 255)]
   \<and> opaqueColors (frames demoImage ! 0) (width demoImage) 0 0
        = {(16, 0, 0, 255), (32, 0, 0, 255), (48, 0, 0, 255), (64, 0, 0, 255)}
   \<and> set (groups demoPlan ! 0 ! 0 ! 0) \<inter> set (groups demoPlan ! 1 ! 0 ! 0) = {}"
proof -
  have pl: "buildLayeredPlan demoImage (tilesX demoImage) (tilesY demoImage) 3 = Inr demoPlan"
    by (simp add: demo_tiles demo_plan_eq)
  have r: "(0::nat) < frameCount demoImage" "0 < tilesY demoImage" "0 < tilesX demoImage"
    by (simp_all add: demo_frameCount demo_tiles)
  have lc: "layerCount demoPlan = 2" by (simp add: demoPlan_def)
  have "(1::nat) \<le> 3" by simp
  note t = color_partition[OF demo_wellFormed this pl r, simplified]
  from t have a: "set (colorsAt demoImage 0 0 0) = opaqueColors (frames demoImage ! 0) (width demoImage) 0 0"
    by (elim conjE)
  from t have b: "concat (map (\<lambda>c. groups demoPlan ! c ! 0 ! 0) [0..<layerCount demoPlan])
      = colorsAt demoImage 0 0 0"
    by (elim conjE)
  from t have c: "\<forall>c < layerCount demoPlan. \<forall>c' < layerCount demoPlan. c \<noteq> c' \<longrightarrow>
            set (groups demoPlan ! c ! 0 ! 0) \<inter> set (groups demoPlan ! c' ! 0 ! 0) = {}"
    by (elim conjE)
  from b have b': "groups demoPlan ! 0 ! 0 ! 0 @ groups demoPlan ! 1 ! 0 ! 0
        = [(16, 0, 0, 255), (32, 0, 0, 255), (48, 0, 0, 255), (64, 0, 0, 255)]"
    by (simp add: lc upt2 demo_colorsAt)
  from a have a': "opaqueColors (frames demoImage ! 0) (width demoImage) 0 0
        = {(16, 0, 0, 255), (32, 0, 0, 255), (48, 0, 0, 255), (64, 0, 0, 255)}"
    by (simp add: demo_colorsAt)
  from c[rule_format, of 0 1] have c': "set (groups demoPlan ! 0 ! 0 ! 0) \<inter> set (groups demoPlan ! 1 ! 0 ! 0) = {}"
    by (simp add: lc)
  from demo_wellFormed pl r a' b' c' show ?thesis by simp
qed

section \<open>What the output holds for every tile\<close>

lemma encode_tile_facts:
  assumes enc: "encode img maxL MP = Inr out" and ml: "1 \<le> maxL"
    and l: "l < outLayerCount out"
    and fi: "fi < frameCount img" and ty: "ty < tilesY img" and tx: "tx < tilesX img"
  obtains pl where "buildLayeredPlan img (tilesX img) (tilesY img) maxL = Inr pl"
    and "outLayerCount out = layerCount pl"
    and "length (perLayerPalettes out) = layerCount pl"
    and "length (perLayerPalettes out ! l) \<le> MP"
    and "perLayerPalIdMap out ! l ! fi ! (ty * tilesX img + tx) < length (perLayerPalettes out ! l)"
    and "samePalette (perLayerPalettes out ! l ! (perLayerPalIdMap out ! l ! fi ! (ty * tilesX img + tx)))
           (buildTilePaletteRgb444 (groups pl ! l ! fi ! (ty * tilesX img + tx)))"
    and "perLayerTiles out ! l ! fi ! (ty * tilesX img + tx) =
           encodeNgpcTile2bppLayered (frames img ! fi) (width img) (tx * 8) (ty * 8)
             (groups pl ! l ! fi ! (ty * tilesX img + tx))"
    and "groups pl ! l ! fi ! (ty * tilesX img + tx) = slice (colorsAt img fi ty tx) (l * 3) (l * 3 + 3)"
proof -
  from enc obtain pl where pl: "buildLayeredPlan img (width img div 8) (height img div 8) maxL = Inr pl"
    and inv: "outInv img pl (width img div 8) MP (layerCount pl) out"
    by (rule encode_success)
  from inv have cnt: "outLayerCount out = layerCount pl"
    and len: "length (perLayerPalettes out) = layerCount pl"
    and lay: "\<And>l. l < layerCount pl \<Longrightarrow>
        layerInv img pl (width img div 8) MP l (tileSet img (width img div 8)) (layerOf out l)"
    unfolding outInv_def by blast+
  from l cnt have l': "l < layerCount pl" by simp
  from lay[OF l'] have cap: "length (bank (layerOf out l)) \<le> MP"
    and facts: "\<And>fi ty tx. (fi, ty, tx) \<in> tileSet img (width img div 8) \<Longrightarrow>
        tileFacts img pl (width img div 8) l (layerOf out l) fi ty tx"
    unfolding layerInv_def by blast+
  have "(fi, ty, tx) \<in> tileSet img (width img div 8)"
    using fi ty tx by (simp add: tileSet_def tilesX_def tilesY_def)
  from facts[OF this] have
    f1: "palIds (layerOf out l) ! fi ! (ty * (width img div 8) + tx) < length (bank (layerOf out l))"
    and f2: "samePalette (bank (layerOf out l) ! (palIds (layerOf out l) ! fi ! (ty * (width img div 8) + tx)))
          (buildTilePaletteRgb444 (groups pl ! l ! fi ! (ty * (width img div 8) + tx)))"
    and f3: "tileData (layerOf out l) ! fi ! (ty * (width img div 8) + tx) =
          encodeNgpcTile2bppLayered (frames img ! fi) (width img) (tx * 8) (ty * 8)
            (groups pl ! l ! fi ! (ty * (width img div 8) + tx))"
    unfolding tileFacts_def by simp_all
  have pl': "buildLayeredPlan img (tilesX img) (tilesY img) maxL = Inr pl"
    using pl by (simp add: tilesX_def tilesY_def)
  note s = plan_success[OF pl' ml]
  show ?thesis
  proof (rule that[of pl])
    show "buildLayeredPlan img (tilesX img) (tilesY img) maxL = Inr pl" by (rule pl')
    show "outLayerCount out = layerCount pl" by (rule cnt)
    show "length (perLayerPalettes out) = layerCount pl" by (rule len)
    show "length (perLayerPalettes out ! l) \<le> MP" using cap by (simp add: layerOf_def)
    show "perLayerPalIdMap out ! l ! fi ! (ty * tilesX img + tx) < length (perLayerPalettes out ! l)"
      using f1 by (simp add: layerOf_def tilesX_def)
    show "samePalette (perLayerPalettes out ! l ! (perLayerPalIdMap out ! l ! fi ! (ty * tilesX img + tx)))
           (buildTilePaletteRgb444 (groups pl ! l ! fi ! (ty * tilesX img + tx)))"
      using f2 by (simp add: layerOf_def tilesX_def)
    show "perLayerTiles out ! l ! fi ! (ty * tilesX img + tx) =
           encodeNgpcTile2bppLayered (frames img ! fi) (width img) (tx * 8) (ty * 8)
             (groups pl ! l ! fi ! (ty * tilesX img + tx))"
      using f3 by (simp add: layerOf_def tilesX_def)
    show "groups pl ! l ! fi ! (ty * tilesX img + tx) = slice (colorsAt img fi ty tx) (l * 3) (l * 3 + 3)"
      by (rule s(5)[OF fi ty tx l'])
  qed
qed



section \<open>Palette interning\<close>






section \<open>Pixel indices\<close>

lemma tileOffset_eq: "((ty * 8 + y) * w + (tx * 8 + x)) * 4 = tileOffset w tx ty x y"
  by (simp add: tileOffset_def)

text \<open>
  C5. Take a successful encode of a well-formed image with \<open>maxLayers \<ge> 1\<close>, a layer \<open>l\<close> of
  the output, a tile \<open>(tx, ty)\<close> of a frame \<open>fi\<close> and a pixel \<open>(x, y)\<close> of the tile. The
  group of the layer for the tile is the slice \<open>[3l, 3l + 3)\<close> of the tile's colour list:
  at most three keys, all different. The 2-bit index stored for the pixel in the tile's
  bytes is 0 when the source pixel has alpha 0 or its key is not in the group, and
  \<open>i + 1\<close> when the pixel is opaque and its key is key \<open>i\<close> of the group; it is at most 3.
\<close>

theorem pixel_index_rule:
  assumes "wellFormed img" and "1 \<le> maxL" and "encode img maxL MP = Inr out"
    and "l < outLayerCount out"
    and "fi < frameCount img" and "ty < tilesY img" and "tx < tilesX img"
    and "x < 8" and "y < 8"
  shows "(\<exists>pl. buildLayeredPlan img (tilesX img) (tilesY img) maxL = Inr pl
            \<and> groups pl ! l ! fi ! (ty * tilesX img + tx)
                 = slice (colorsAt img fi ty tx) (l * 3) (l * 3 + 3))
     \<and> length (slice (colorsAt img fi ty tx) (l * 3) (l * 3 + 3)) \<le> 3
     \<and> distinct (slice (colorsAt img fi ty tx) (l * 3) (l * 3 + 3))
     \<and> (pixelAlpha (frames img ! fi) (tileOffset (width img) tx ty x y) = 0
          \<or> pixelKey (frames img ! fi) (tileOffset (width img) tx ty x y)
               \<notin> set (slice (colorsAt img fi ty tx) (l * 3) (l * 3 + 3))
         \<longrightarrow> tilePixel (perLayerTiles out ! l ! fi ! (ty * tilesX img + tx)) x y = 0)
     \<and> (\<forall>i < length (slice (colorsAt img fi ty tx) (l * 3) (l * 3 + 3)).
           pixelAlpha (frames img ! fi) (tileOffset (width img) tx ty x y) \<noteq> 0
           \<and> pixelKey (frames img ! fi) (tileOffset (width img) tx ty x y)
                = slice (colorsAt img fi ty tx) (l * 3) (l * 3 + 3) ! i
         \<longrightarrow> tilePixel (perLayerTiles out ! l ! fi ! (ty * tilesX img + tx)) x y = i + 1)
     \<and> tilePixel (perLayerTiles out ! l ! fi ! (ty * tilesX img + tx)) x y \<le> 3"
proof -
  let ?pix = "frames img ! fi"
  let ?grp = "slice (colorsAt img fi ty tx) (l * 3) (l * 3 + 3)"
  let ?ix = "tileOffset (width img) tx ty x y"
  let ?tile = "perLayerTiles out ! l ! fi ! (ty * tilesX img + tx)"
  from assms(3,2,4-7) obtain pl where
    pl: "buildLayeredPlan img (tilesX img) (tilesY img) maxL = Inr pl"
    and bytes: "?tile = encodeNgpcTile2bppLayered ?pix (width img) (tx * 8) (ty * 8)
             (groups pl ! l ! fi ! (ty * tilesX img + tx))"
    and grp: "groups pl ! l ! fi ! (ty * tilesX img + tx) = ?grp"
    by (rule encode_tile_facts)
  have len: "length ?grp \<le> 3" by (simp add: slice_length)
  have dist: "distinct ?grp" by (rule slice_distinct) (rule colorsAt_props(2))
  have px: "tilePixel ?tile x y = pixelIndex ?pix (buildIndexMap ?grp) ?ix AND 3"
    unfolding bytes grp tilePixel_encode[OF assms(8,9)] tileOffset_def ..
  have zero: "tilePixel ?tile x y = 0"
    if "pixelAlpha ?pix ?ix = 0 \<or> pixelKey ?pix ?ix \<notin> set ?grp"
    using that unfolding px by (auto simp: pixelIndex_transparent pixelIndex_masked)
  have pos: "tilePixel ?tile x y = i + 1"
    if i: "i < length ?grp" and a: "pixelAlpha ?pix ?ix \<noteq> 0" and k: "pixelKey ?pix ?ix = ?grp ! i" for i
  proof -
    from i len have "i + 1 \<le> 3" by simp
    then have "(i + 1) AND 3 = i + 1" by (rule and3_small)
    then show ?thesis
      unfolding px pixelIndex_member[OF dist len i k a] .
  qed
  have "tilePixel ?tile x y \<le> 3"
    unfolding px and3 using take_bit_nat_less_eq_self[of 2] by (simp add: take_bit_eq_mod)
  with pl grp len dist zero pos show ?thesis by blast
qed


lemma demo_pixel_5:
  "pixelAlpha demoPixels (tileOffset 8 0 0 5 0) = 255"
  "pixelKey demoPixels (tileOffset 8 0 0 5 0) = (32, 0, 0, 255)"
  by (simp_all add: pixelAlpha_def pixelKey_def tileOffset_def demoPixels_nth demoByte_def rgbaKey_def)

lemma demo_slice0:
  "slice (colorsAt demoImage 0 0 0) 0 3 = [(16, 0, 0, 255), (32, 0, 0, 255), (48, 0, 0, 255)]"
  by (simp add: demo_colorsAt slice_def)

theorem pixel_index_rule_witness:
  "wellFormed demoImage \<and> (1::nat) \<le> 3 \<and> encode demoImage 3 16 = Inr demoOut
   \<and> 0 < outLayerCount demoOut
   \<and> 0 < frameCount demoImage \<and> 0 < tilesY demoImage \<and> 0 < tilesX demoImage
   \<and> (5::nat) < 8 \<and> (0::nat) < 8
   \<and> Suc 0 < length (slice (colorsAt demoImage 0 0 0) (0 * 3) (0 * 3 + 3))
   \<and> pixelAlpha (frames demoImage ! 0) (tileOffset (width demoImage) 0 0 5 0) \<noteq> 0
   \<and> pixelKey (frames demoImage ! 0) (tileOffset (width demoImage) 0 0 5 0)
        = slice (colorsAt demoImage 0 0 0) (0 * 3) (0 * 3 + 3) ! Suc 0
   \<and> tilePixel (perLayerTiles demoOut ! 0 ! 0 ! (0 * tilesX demoImage + 0)) 5 0 = Suc 0 + 1"
proof -
  have two: "0 < outLayerCount demoOut" by (simp add: demoOut_def)
  have r: "0 < frameCount demoImage" "0 < tilesY demoImage" "0 < tilesX demoImage"
    by (simp_all add: demo_frameCount demo_tiles)
  have xy: "(5::nat) < 8" "(0::nat) < 8" by simp_all
  have ml: "(1::nat) \<le> 3" by simp
  have i: "Suc 0 < length (slice (colorsAt demoImage 0 0 0) (0 * 3) (0 * 3 + 3))"
    by (simp add: demo_slice0)
  have px: "pixelAlpha (frames demoImage ! 0) (tileOffset (width demoImage) 0 0 5 0) \<noteq> 0
      \<and> pixelKey (frames demoImage ! 0) (tileOffset (width demoImage) 0 0 5 0)
        = slice (colorsAt demoImage 0 0 0) (0 * 3) (0 * 3 + 3) ! Suc 0"
    by (simp add: demo_frames demo_pixel_5 demo_slice0)
  note t = pixel_index_rule[OF demo_wellFormed ml demo_encode two r xy,
      THEN conjunct2, THEN conjunct2, THEN conjunct2, THEN conjunct2, THEN conjunct1,
      rule_format, OF i px]
  from demo_wellFormed ml demo_encode two r xy i px t show ?thesis by blast
qed

section \<open>The layout of a tile\<close>

lemma encode_bytes:
  assumes "y < 8"
  shows "encodeNgpcTile2bppLayered pix imgW x0 y0 gk ! (2 * y)
       = byteOfFields (indexAt pix imgW x0 y0 gk 7 y) (indexAt pix imgW x0 y0 gk 6 y)
           (indexAt pix imgW x0 y0 gk 5 y) (indexAt pix imgW x0 y0 gk 4 y)"
    and "encodeNgpcTile2bppLayered pix imgW x0 y0 gk ! (2 * y + 1)
       = byteOfFields (indexAt pix imgW x0 y0 gk 3 y) (indexAt pix imgW x0 y0 gk 2 y)
           (indexAt pix imgW x0 y0 gk 1 y) (indexAt pix imgW x0 y0 gk 0 y)"
  unfolding encode_nth[OF assms] packBlock_fields indexAt_def byteOfFields_def
  by (simp_all add: and.assoc)

lemma indexAt_mod: "indexAt pix imgW x0 y0 gk x y mod 4 = indexAt pix imgW x0 y0 gk x y"
  unfolding indexAt_def and3 by (simp add: take_bit_eq_mod)

lemma indexAt_and: "indexAt pix imgW x0 y0 gk x y AND 3 = indexAt pix imgW x0 y0 gk x y"
  unfolding indexAt_def by (simp add: and.assoc)

lemma wellFormed_tileInBounds:
  assumes wf: "wellFormed img" and fi: "fi < frameCount img"
    and ty: "ty < tilesY img" and tx: "tx < tilesX img"
  shows "tileInBounds (frames img ! fi) (width img) (tx * 8) (ty * 8)"
proof -
  from wf fi have len: "length (frames img ! fi) = width img * height img * 4"
    by (simp add: wellFormed_def frameCount_def list_all_length)
  from tx have w: "tx * 8 + 8 \<le> width img" unfolding tilesX_def by linarith
  from ty have "ty * 8 + 8 \<le> height img" unfolding tilesY_def by linarith
  then have "(ty * 8 + 8) * (width img * 4) \<le> height img * (width img * 4)"
    by (rule mult_le_mono1)
  with w len show ?thesis by (simp add: tileInBounds_def ac_simps)
qed

text \<open>
  C4. For a tile that lies inside its buffer, \<^verbatim>\<open>encodeNgpcTile2bppLayered_\<close> returns 16
  bytes. Row \<open>y\<close> is bytes \<open>2y\<close> and \<open>2y + 1\<close>: the first holds the indices of columns 7, 6, 5
  and 4 in bits 0-1, 2-3, 4-5 and 6-7, the second those of columns 3, 2, 1 and 0 in the same
  bit positions; no other bit is set. For a group \<open>[A, B, C]\<close> with \<open>A\<close> opaque and different
  from \<open>B\<close> and \<open>C\<close>, a top row that is \<open>A\<close> in columns 4 to 7 and transparent in columns
  0 to 3 gives the bytes \<open>0x55\<close> and \<open>0x00\<close>. In the output of a successful encode of a
  well-formed image, the entry of every layer, frame and tile is that encoding of the tile
  under the layer's group, 16 bytes long.
\<close>

theorem tile_bit_packing:
  "(tileInBounds pix imgW x0 y0 \<longrightarrow>
      length (encodeNgpcTile2bppLayered pix imgW x0 y0 gk) = 16
      \<and> (\<forall>y < 8.
            encodeNgpcTile2bppLayered pix imgW x0 y0 gk ! (2 * y)
              = indexAt pix imgW x0 y0 gk 7 y + 4 * indexAt pix imgW x0 y0 gk 6 y
                + 16 * indexAt pix imgW x0 y0 gk 5 y + 64 * indexAt pix imgW x0 y0 gk 4 y
            \<and> encodeNgpcTile2bppLayered pix imgW x0 y0 gk ! (2 * y + 1)
              = indexAt pix imgW x0 y0 gk 3 y + 4 * indexAt pix imgW x0 y0 gk 2 y
                + 16 * indexAt pix imgW x0 y0 gk 1 y + 64 * indexAt pix imgW x0 y0 gk 0 y
            \<and> fieldAt (encodeNgpcTile2bppLayered pix imgW x0 y0 gk ! (2 * y)) 0 = indexAt pix imgW x0 y0 gk 7 y
            \<and> fieldAt (encodeNgpcTile2bppLayered pix imgW x0 y0 gk ! (2 * y)) 2 = indexAt pix imgW x0 y0 gk 6 y
            \<and> fieldAt (encodeNgpcTile2bppLayered pix imgW x0 y0 gk ! (2 * y)) 4 = indexAt pix imgW x0 y0 gk 5 y
            \<and> fieldAt (encodeNgpcTile2bppLayered pix imgW x0 y0 gk ! (2 * y)) 6 = indexAt pix imgW x0 y0 gk 4 y
            \<and> fieldAt (encodeNgpcTile2bppLayered pix imgW x0 y0 gk ! (2 * y + 1)) 0 = indexAt pix imgW x0 y0 gk 3 y
            \<and> fieldAt (encodeNgpcTile2bppLayered pix imgW x0 y0 gk ! (2 * y + 1)) 2 = indexAt pix imgW x0 y0 gk 2 y
            \<and> fieldAt (encodeNgpcTile2bppLayered pix imgW x0 y0 gk ! (2 * y + 1)) 4 = indexAt pix imgW x0 y0 gk 1 y
            \<and> fieldAt (encodeNgpcTile2bppLayered pix imgW x0 y0 gk ! (2 * y + 1)) 6 = indexAt pix imgW x0 y0 gk 0 y))
   \<and> (tileInBounds pix imgW x0 y0 \<and> snd (snd (snd A)) \<noteq> 0 \<and> A \<noteq> B \<and> A \<noteq> C
       \<and> (\<forall>x. 4 \<le> x \<and> x < 8 \<longrightarrow> pixelKey pix ((y0 * imgW + (x0 + x)) * 4) = A)
       \<and> (\<forall>x < 4. pixelAlpha pix ((y0 * imgW + (x0 + x)) * 4) = 0)
       \<longrightarrow> encodeNgpcTile2bppLayered pix imgW x0 y0 [A, B, C] ! 0 = 0x55
         \<and> encodeNgpcTile2bppLayered pix imgW x0 y0 [A, B, C] ! 1 = 0x00)
   \<and> (wellFormed img \<and> 1 \<le> maxL \<and> encode img maxL MP = Inr out \<longrightarrow>
        (\<forall>l < outLayerCount out. \<forall>fi < frameCount img. \<forall>ty < tilesY img. \<forall>tx < tilesX img.
           tileInBounds (frames img ! fi) (width img) (tx * 8) (ty * 8)
           \<and> perLayerTiles out ! l ! fi ! (ty * tilesX img + tx)
               = encodeNgpcTile2bppLayered (frames img ! fi) (width img) (tx * 8) (ty * 8)
                   (slice (colorsAt img fi ty tx) (l * 3) (l * 3 + 3))
           \<and> length (perLayerTiles out ! l ! fi ! (ty * tilesX img + tx)) = 16))"
proof (intro conjI impI allI)
  show "length (encodeNgpcTile2bppLayered pix imgW x0 y0 gk) = 16" by (rule encode_length)
next
  fix y :: nat assume y: "y < 8"
  note b = encode_bytes[OF y, of pix imgW x0 y0 gk]
  show "encodeNgpcTile2bppLayered pix imgW x0 y0 gk ! (2 * y)
              = indexAt pix imgW x0 y0 gk 7 y + 4 * indexAt pix imgW x0 y0 gk 6 y
                + 16 * indexAt pix imgW x0 y0 gk 5 y + 64 * indexAt pix imgW x0 y0 gk 4 y"
    unfolding b(1) byteOfFields_sum indexAt_mod ..
  show "encodeNgpcTile2bppLayered pix imgW x0 y0 gk ! (2 * y + 1)
              = indexAt pix imgW x0 y0 gk 3 y + 4 * indexAt pix imgW x0 y0 gk 2 y
                + 16 * indexAt pix imgW x0 y0 gk 1 y + 64 * indexAt pix imgW x0 y0 gk 0 y"
    unfolding b(2) byteOfFields_sum indexAt_mod ..
  show "fieldAt (encodeNgpcTile2bppLayered pix imgW x0 y0 gk ! (2 * y)) 0 = indexAt pix imgW x0 y0 gk 7 y"
    unfolding b(1) fieldAt_byteOfFields indexAt_and ..
  show "fieldAt (encodeNgpcTile2bppLayered pix imgW x0 y0 gk ! (2 * y)) 2 = indexAt pix imgW x0 y0 gk 6 y"
    unfolding b(1) fieldAt_byteOfFields indexAt_and ..
  show "fieldAt (encodeNgpcTile2bppLayered pix imgW x0 y0 gk ! (2 * y)) 4 = indexAt pix imgW x0 y0 gk 5 y"
    unfolding b(1) fieldAt_byteOfFields indexAt_and ..
  show "fieldAt (encodeNgpcTile2bppLayered pix imgW x0 y0 gk ! (2 * y)) 6 = indexAt pix imgW x0 y0 gk 4 y"
    unfolding b(1) fieldAt_byteOfFields indexAt_and ..
  show "fieldAt (encodeNgpcTile2bppLayered pix imgW x0 y0 gk ! (2 * y + 1)) 0 = indexAt pix imgW x0 y0 gk 3 y"
    unfolding b(2) fieldAt_byteOfFields indexAt_and ..
  show "fieldAt (encodeNgpcTile2bppLayered pix imgW x0 y0 gk ! (2 * y + 1)) 2 = indexAt pix imgW x0 y0 gk 2 y"
    unfolding b(2) fieldAt_byteOfFields indexAt_and ..
  show "fieldAt (encodeNgpcTile2bppLayered pix imgW x0 y0 gk ! (2 * y + 1)) 4 = indexAt pix imgW x0 y0 gk 1 y"
    unfolding b(2) fieldAt_byteOfFields indexAt_and ..
  show "fieldAt (encodeNgpcTile2bppLayered pix imgW x0 y0 gk ! (2 * y + 1)) 6 = indexAt pix imgW x0 y0 gk 0 y"
    unfolding b(2) fieldAt_byteOfFields indexAt_and ..
next
  assume a: "tileInBounds pix imgW x0 y0 \<and> snd (snd (snd A)) \<noteq> 0 \<and> A \<noteq> B \<and> A \<noteq> C
       \<and> (\<forall>x. 4 \<le> x \<and> x < 8 \<longrightarrow> pixelKey pix ((y0 * imgW + (x0 + x)) * 4) = A)
       \<and> (\<forall>x < 4. pixelAlpha pix ((y0 * imgW + (x0 + x)) * 4) = 0)"
  have right: "indexAt pix imgW x0 y0 [A, B, C] x 0 = 1" if "4 \<le> x" "x < 8" for x
  proof -
    from a that have k: "pixelKey pix ((y0 * imgW + (x0 + x)) * 4) = A" by blast
    with a have "unat (pix ! ((y0 * imgW + (x0 + x)) * 4 + 3)) \<noteq> 0"
      by (auto simp: pixelKey_def rgbaKey_def)
    moreover from a have "buildIndexMap [A, B, C] A = Some 1"
      by (simp add: buildIndexMap_3)
    ultimately show ?thesis
      using k by (simp add: indexAt_def pixelIndex_def pixelKey_def Let_def)
  qed
  have left: "indexAt pix imgW x0 y0 [A, B, C] x 0 = 0" if "x < 4" for x
    using a that by (simp add: indexAt_def pixelIndex_transparent)
  have zero: "(0::nat) < 8" by simp
  note b = encode_bytes[OF zero, of pix imgW x0 y0 "[A, B, C]"]
  from b(1) show "encodeNgpcTile2bppLayered pix imgW x0 y0 [A, B, C] ! 0 = 0x55"
    by (simp add: right left byteOfFields_sum)
  from b(2) show "encodeNgpcTile2bppLayered pix imgW x0 y0 [A, B, C] ! 1 = 0x00"
    by (simp add: right left byteOfFields_sum)
next
  fix l fi ty tx
  assume a: "wellFormed img \<and> 1 \<le> maxL \<and> encode img maxL MP = Inr out"
    and l: "l < outLayerCount out" and r: "fi < frameCount img" "ty < tilesY img" "tx < tilesX img"
  from a have wf: "wellFormed img" and ml: "1 \<le> maxL" and enc: "encode img maxL MP = Inr out"
    by simp_all
  show "tileInBounds (frames img ! fi) (width img) (tx * 8) (ty * 8)"
    by (rule wellFormed_tileInBounds[OF wf r])
  from enc ml l r obtain pl where
    pl: "buildLayeredPlan img (tilesX img) (tilesY img) maxL = Inr pl"
    and bytes: "perLayerTiles out ! l ! fi ! (ty * tilesX img + tx) =
           encodeNgpcTile2bppLayered (frames img ! fi) (width img) (tx * 8) (ty * 8)
             (groups pl ! l ! fi ! (ty * tilesX img + tx))"
    and grp: "groups pl ! l ! fi ! (ty * tilesX img + tx) = slice (colorsAt img fi ty tx) (l * 3) (l * 3 + 3)"
    by (rule encode_tile_facts)
  show e: "perLayerTiles out ! l ! fi ! (ty * tilesX img + tx)
               = encodeNgpcTile2bppLayered (frames img ! fi) (width img) (tx * 8) (ty * 8)
                   (slice (colorsAt img fi ty tx) (l * 3) (l * 3 + 3))"
    unfolding bytes grp ..
  show "length (perLayerTiles out ! l ! fi ! (ty * tilesX img + tx)) = 16"
    unfolding e by (rule encode_length)
qed


lemma stripePixels_nth: "i < 256 \<Longrightarrow> stripePixels ! i = stripeByte i"
  by (simp add: stripePixels_def del: upt_rec_numeral)

lemma stripePixels_length: "length stripePixels = 256"
  by (simp add: stripePixels_def del: upt_rec_numeral)

lemma stripe_right:
  assumes "4 \<le> x" and "x < 8"
  shows "pixelKey stripePixels ((0 * 8 + (0 + x)) * 4) = (255, 128, 16, 255)"
proof -
  from assms consider "x = 4" | "x = 5" | "x = 6" | "x = 7" by linarith
  then show ?thesis
    by cases (simp_all add: pixelKey_def rgbaKey_def stripePixels_nth stripeByte_def)
qed

lemma stripe_left:
  assumes "x < 4"
  shows "pixelAlpha stripePixels ((0 * 8 + (0 + x)) * 4) = 0"
proof -
  from assms consider "x = 0" | "x = 1" | "x = 2" | "x = 3" by linarith
  then show ?thesis
    by cases (simp_all add: pixelAlpha_def stripePixels_nth stripeByte_def)
qed

theorem tile_bit_packing_witness:
  "tileInBounds stripePixels 8 0 0
   \<and> snd (snd (snd ((255, 128, 16, 255) :: colorKey))) \<noteq> 0
   \<and> ((255, 128, 16, 255) :: colorKey) \<noteq> (1, 2, 3, 255)
   \<and> ((255, 128, 16, 255) :: colorKey) \<noteq> (4, 5, 6, 255)
   \<and> pixelKey stripePixels ((0 * 8 + (0 + 4)) * 4) = (255, 128, 16, 255)
   \<and> pixelKey stripePixels ((0 * 8 + (0 + 5)) * 4) = (255, 128, 16, 255)
   \<and> pixelKey stripePixels ((0 * 8 + (0 + 6)) * 4) = (255, 128, 16, 255)
   \<and> pixelKey stripePixels ((0 * 8 + (0 + 7)) * 4) = (255, 128, 16, 255)
   \<and> pixelAlpha stripePixels ((0 * 8 + (0 + 0)) * 4) = 0
   \<and> pixelAlpha stripePixels ((0 * 8 + (0 + 1)) * 4) = 0
   \<and> pixelAlpha stripePixels ((0 * 8 + (0 + 2)) * 4) = 0
   \<and> pixelAlpha stripePixels ((0 * 8 + (0 + 3)) * 4) = 0
   \<and> encodeNgpcTile2bppLayered stripePixels 8 0 0 [(255, 128, 16, 255), (1, 2, 3, 255), (4, 5, 6, 255)] ! 0 = 0x55
   \<and> encodeNgpcTile2bppLayered stripePixels 8 0 0 [(255, 128, 16, 255), (1, 2, 3, 255), (4, 5, 6, 255)] ! 1 = 0x00
   \<and> length (encodeNgpcTile2bppLayered stripePixels 8 0 0 [(255, 128, 16, 255), (1, 2, 3, 255), (4, 5, 6, 255)]) = 16
   \<and> wellFormed demoImage \<and> (1::nat) \<le> 3 \<and> encode demoImage 3 16 = Inr demoOut
   \<and> Suc 0 < outLayerCount demoOut \<and> 2 < frameCount demoImage
   \<and> 0 < tilesY demoImage \<and> 0 < tilesX demoImage
   \<and> length (perLayerTiles demoOut ! Suc 0 ! 2 ! (0 * tilesX demoImage + 0)) = 16"
proof -
  let ?A = "(255, 128, 16, 255) :: colorKey"
  let ?B = "(1, 2, 3, 255) :: colorKey"
  let ?C = "(4, 5, 6, 255) :: colorKey"
  have inb: "tileInBounds stripePixels 8 0 0"
    by (simp add: tileInBounds_def stripePixels_length)
  have hyp: "tileInBounds stripePixels 8 0 0 \<and> snd (snd (snd ?A)) \<noteq> 0 \<and> ?A \<noteq> ?B \<and> ?A \<noteq> ?C
       \<and> (\<forall>x. 4 \<le> x \<and> x < 8 \<longrightarrow> pixelKey stripePixels ((0 * 8 + (0 + x)) * 4) = ?A)
       \<and> (\<forall>x < 4. pixelAlpha stripePixels ((0 * 8 + (0 + x)) * 4) = 0)"
    using inb stripe_right stripe_left by simp
  note t = tile_bit_packing[where pix = stripePixels and imgW = 8 and ?x0.0 = 0 and ?y0.0 = 0
      and A = ?A and B = ?B and C = ?C and gk = "[?A, ?B, ?C]"]
  note ex = t[THEN conjunct2, THEN conjunct1, rule_format, OF hyp]
  note len = t[THEN conjunct1, rule_format, OF inb, THEN conjunct1]
  note u = tile_bit_packing[where img = demoImage and maxL = 3 and MP = 16 and out = demoOut,
      THEN conjunct2, THEN conjunct2, rule_format]
  have enc: "wellFormed demoImage \<and> (1::nat) \<le> 3 \<and> encode demoImage 3 16 = Inr demoOut"
    using demo_wellFormed demo_encode by simp
  have r: "Suc 0 < outLayerCount demoOut" "2 < frameCount demoImage"
    "0 < tilesY demoImage" "0 < tilesX demoImage"
    by (simp_all add: demoOut_def demo_frameCount demo_tiles)
  from u[OF enc r]
  have "length (perLayerTiles demoOut ! Suc 0 ! 2 ! (0 * tilesX demoImage + 0)) = 16"
    by (elim conjE)
  moreover have "pixelKey stripePixels ((0 * 8 + (0 + 4)) * 4) = ?A"
    "pixelKey stripePixels ((0 * 8 + (0 + 5)) * 4) = ?A"
    "pixelKey stripePixels ((0 * 8 + (0 + 6)) * 4) = ?A"
    "pixelKey stripePixels ((0 * 8 + (0 + 7)) * 4) = ?A"
    by (rule stripe_right; simp)+
  moreover have "pixelAlpha stripePixels ((0 * 8 + (0 + 0)) * 4) = 0"
    "pixelAlpha stripePixels ((0 * 8 + (0 + 1)) * 4) = 0"
    "pixelAlpha stripePixels ((0 * 8 + (0 + 2)) * 4) = 0"
    "pixelAlpha stripePixels ((0 * 8 + (0 + 3)) * 4) = 0"
    by (rule stripe_left; simp)+
  moreover have "snd (snd (snd ?A)) \<noteq> 0" "?A \<noteq> ?B" "?A \<noteq> ?C"
    by simp_all
  ultimately show ?thesis
    using inb ex len enc r by (elim conjE) (intro conjI; assumption)
qed

section \<open>Bit order inside a byte\<close>

text \<open>
  C9, as the code has it. Inside a byte the rightmost column of the block comes first: the
  index of the pixel in column \<open>x\<close> of row \<open>y\<close> is held in byte \<open>2y\<close> for \<open>x \<ge> 4\<close> and
  \<open>2y + 1\<close> for \<open>x < 4\<close>, at bit position \<open>2 * (s - x)\<close>, where \<open>s\<close> is 7 or 3, the rightmost
  column of the block. So of two pixels of the same row and block, the one at the greater
  column offset has its index at the lower bit position.
\<close>

theorem bit_order:
  assumes "tileInBounds pix imgW x0 y0" and "y < 8"
    and "x < x'" and "x' < 8" and "x div 4 = x' div 4"
  shows "2 * ((if 4 \<le> x' then 7 else 3) - x') < 2 * ((if 4 \<le> x then 7 else 3) - x)
     \<and> 2 * ((if 4 \<le> x then 7 else 3) - x) \<le> 6
     \<and> (if 4 \<le> x then 0 else 1) = (if 4 \<le> x' then 0 else (1::nat))
     \<and> fieldAt (encodeNgpcTile2bppLayered pix imgW x0 y0 gk ! (2 * y + (if 4 \<le> x then 0 else 1)))
          (2 * ((if 4 \<le> x then 7 else 3) - x)) = indexAt pix imgW x0 y0 gk x y
     \<and> fieldAt (encodeNgpcTile2bppLayered pix imgW x0 y0 gk ! (2 * y + (if 4 \<le> x' then 0 else 1)))
          (2 * ((if 4 \<le> x' then 7 else 3) - x')) = indexAt pix imgW x0 y0 gk x' y"
proof -
  from assms(3,4) have x: "x < 8" by simp
  have "4 \<le> x \<longleftrightarrow> 0 < x div 4" and "4 \<le> x' \<longleftrightarrow> 0 < x' div 4"
    by (simp_all add: div_greater_zero_iff)
  then have blk: "4 \<le> x \<longleftrightarrow> 4 \<le> x'" unfolding assms(5) by simp
  have pos: "2 * ((if 4 \<le> x' then 7 else 3) - x') < 2 * ((if 4 \<le> x then 7 else 3) - x)"
    using assms(3,4) blk by auto
  have top: "2 * ((if 4 \<le> x then 7 else 3) - x) \<le> 6"
    using x by auto
  have f: "fieldAt (encodeNgpcTile2bppLayered pix imgW x0 y0 gk ! (2 * y + (if 4 \<le> c then 0 else 1)))
          (2 * ((if 4 \<le> c then 7 else 3) - c)) = indexAt pix imgW x0 y0 gk c y" if "c < 8" for c
    using tilePixel_encode[OF that assms(2), of pix imgW x0 y0 gk]
    unfolding tilePixel_def indexAt_def .
  from pos top blk f[OF x] f[OF assms(4)] show ?thesis by simp
qed


lemma demo_indexAt:
  "indexAt demoPixels 8 0 0 [(16, 0, 0, 255), (32, 0, 0, 255), (48, 0, 0, 255)] 4 0 = 1"
  "indexAt demoPixels 8 0 0 [(16, 0, 0, 255), (32, 0, 0, 255), (48, 0, 0, 255)] 5 0 = 2"
  "indexAt demoPixels 8 0 0 [(16, 0, 0, 255), (32, 0, 0, 255), (48, 0, 0, 255)] 6 0 = 3"
  "indexAt demoPixels 8 0 0 [(16, 0, 0, 255), (32, 0, 0, 255), (48, 0, 0, 255)] 7 0 = 0"
  by (simp_all add: indexAt_def pixelIndex_def demoPixels_nth demoByte_def rgbaKey_def
      buildIndexMap_3 and3 Let_def)

lemma fieldAt_108:
  "fieldAt 108 6 = 1" "fieldAt 108 4 = 2" "fieldAt 108 2 = 3" "fieldAt 108 0 = 0"
  by (simp_all add: fieldAt_def drop_bit_eq_div take_bit_eq_mod)

lemma demo_tileInBounds: "tileInBounds demoPixels 8 0 0"
  by (simp add: tileInBounds_def demoPixels_length)

theorem bit_order_witness:
  "tileInBounds demoPixels 8 0 0 \<and> (0::nat) < 8 \<and> (4::nat) < 6 \<and> (6::nat) < 8
   \<and> (4::nat) div 4 = 6 div 4
   \<and> fieldAt (encodeNgpcTile2bppLayered demoPixels 8 0 0
                 [(16, 0, 0, 255), (32, 0, 0, 255), (48, 0, 0, 255)] ! 0) 6
        = indexAt demoPixels 8 0 0 [(16, 0, 0, 255), (32, 0, 0, 255), (48, 0, 0, 255)] 4 0
   \<and> fieldAt (encodeNgpcTile2bppLayered demoPixels 8 0 0
                 [(16, 0, 0, 255), (32, 0, 0, 255), (48, 0, 0, 255)] ! 0) 2
        = indexAt demoPixels 8 0 0 [(16, 0, 0, 255), (32, 0, 0, 255), (48, 0, 0, 255)] 6 0"
proof -
  have h: "(0::nat) < 8" "(4::nat) < 6" "(6::nat) < 8" "(4::nat) div 4 = 6 div 4" by simp_all
  from bit_order[OF demo_tileInBounds h, of "[(16, 0, 0, 255), (32, 0, 0, 255), (48, 0, 0, 255)]"]
    demo_tileInBounds
  show ?thesis by simp
qed

text \<open>
  The claim as written fails on the first frame of the example under the group of its first
  three colours: columns 4, 5, 6 and 7 of the top row have the indices 1, 2, 3 and 0, and
  the first byte is \<open>108 = 0b01101100\<close>, which holds 1 in bits 6-7, 2 in bits 4-5, 3 in bits
  2-3 and 0 in bits 0-1: the greater the column, the lower the bit position.
\<close>

theorem bit_order_counterexample:
  "encodeNgpcTile2bppLayered demoPixels 8 0 0 [(16, 0, 0, 255), (32, 0, 0, 255), (48, 0, 0, 255)] ! 0 = 108
   \<and> indexAt demoPixels 8 0 0 [(16, 0, 0, 255), (32, 0, 0, 255), (48, 0, 0, 255)] 4 0 = 1
   \<and> indexAt demoPixels 8 0 0 [(16, 0, 0, 255), (32, 0, 0, 255), (48, 0, 0, 255)] 5 0 = 2
   \<and> indexAt demoPixels 8 0 0 [(16, 0, 0, 255), (32, 0, 0, 255), (48, 0, 0, 255)] 6 0 = 3
   \<and> indexAt demoPixels 8 0 0 [(16, 0, 0, 255), (32, 0, 0, 255), (48, 0, 0, 255)] 7 0 = 0
   \<and> fieldAt 108 6 = 1 \<and> fieldAt 108 4 = 2 \<and> fieldAt 108 2 = 3 \<and> fieldAt 108 0 = 0"
  by (simp add: demo_tile0 demo_indexAt fieldAt_108)

section \<open>Colours that share a palette entry\<close>

lemma shadePixels_nth: "i < 256 \<Longrightarrow> shadePixels ! i = shadeByte i"
  by (simp add: shadePixels_def del: upt_rec_numeral)

lemma opaqueColors_member:
  "x < 8 \<Longrightarrow> y < 8 \<Longrightarrow> pixelAlpha pix (tileOffset w tx ty x y) \<noteq> 0 \<Longrightarrow>
   pixelKey pix (tileOffset w tx ty x y) \<in> opaqueColors pix w tx ty"
  unfolding opaqueColors_def by blast

lemma shade_members:
  "(16, 0, 0, 255) \<in> opaqueColors shadePixels 8 0 0"
  "(17, 0, 0, 128) \<in> opaqueColors shadePixels 8 0 0"
proof -
  have a: "pixelAlpha shadePixels (tileOffset 8 0 0 0 0) \<noteq> 0"
    "pixelKey shadePixels (tileOffset 8 0 0 0 0) = (16, 0, 0, 255)"
    by (simp_all add: pixelAlpha_def pixelKey_def tileOffset_def shadePixels_nth shadeByte_def rgbaKey_def)
  have b: "pixelAlpha shadePixels (tileOffset 8 0 0 4 0) \<noteq> 0"
    "pixelKey shadePixels (tileOffset 8 0 0 4 0) = (17, 0, 0, 128)"
    by (simp_all add: pixelAlpha_def pixelKey_def tileOffset_def shadePixels_nth shadeByte_def rgbaKey_def)
  from opaqueColors_member[OF _ _ a(1)] show "(16, 0, 0, 255) \<in> opaqueColors shadePixels 8 0 0"
    unfolding a(2) by simp
  from opaqueColors_member[OF _ _ b(1)] show "(17, 0, 0, 128) \<in> opaqueColors shadePixels 8 0 0"
    unfolding b(2) by simp
qed

lemma palette_slot_value:
  "i < 3 \<Longrightarrow> buildTilePaletteRgb444 gk ! (i + 1) = paletteSlot gk i"
proof -
  assume "i < 3"
  then consider "i = 0" | "i = 1" | "i = 2" by linarith
  then show ?thesis
    by cases (simp_all add: buildTilePaletteRgb444_slots numeral_2_eq_2)
qed

text \<open>
  C10. The packed colour depends only on bits 4 to 7 of each of R, G and B, and the palette
  does not read alpha. Two different opaque keys of a tile are both kept by the analyzer,
  at two positions of the tile's colour list. When two keys of a group (of at most three
  distinct keys) agree on those bits, they get the two different pixel indices of their
  positions and yet their palette slots hold the same value. The group
  \<open>[(16,0,0,128), (16,0,0,255), (17,0,0,255)]\<close> gives the palette \<open>[0, 1, 1, 1]\<close>.
\<close>

theorem duplicate_palette_entries:
  "(r1 div 16 mod 16 = r2 div 16 mod 16 \<and> g1 div 16 mod 16 = g2 div 16 mod 16
      \<and> b1 div 16 mod 16 = b2 div 16 mod 16
      \<longrightarrow> rgbToRgb444 r1 g1 b1 = rgbToRgb444 r2 g2 b2)
   \<and> ((r1, g1, b1, a1) \<noteq> (r2, g2, b2, a2)
       \<and> (r1, g1, b1, a1) \<in> opaqueColors pix w tx ty \<and> (r2, g2, b2, a2) \<in> opaqueColors pix w tx ty
      \<longrightarrow> (\<exists>i j. i \<noteq> j \<and> i < length (tileColors pix w tx ty) \<and> j < length (tileColors pix w tx ty)
             \<and> tileColors pix w tx ty ! i = (r1, g1, b1, a1)
             \<and> tileColors pix w tx ty ! j = (r2, g2, b2, a2)))
   \<and> (\<forall>i j. distinct gk \<and> length gk \<le> 3 \<and> i < length gk \<and> j < length gk \<and> i \<noteq> j
         \<and> gk ! i = (r1, g1, b1, a1) \<and> gk ! j = (r2, g2, b2, a2)
         \<and> r1 div 16 mod 16 = r2 div 16 mod 16 \<and> g1 div 16 mod 16 = g2 div 16 mod 16
         \<and> b1 div 16 mod 16 = b2 div 16 mod 16
      \<longrightarrow> buildIndexMap gk (r1, g1, b1, a1) = Some (i + 1)
        \<and> buildIndexMap gk (r2, g2, b2, a2) = Some (j + 1)
        \<and> i + 1 \<noteq> j + 1 \<and> i + 1 \<le> 3 \<and> j + 1 \<le> 3
        \<and> (\<forall>ix. pixelAlpha pix ix \<noteq> 0 \<and> pixelKey pix ix = (r1, g1, b1, a1)
               \<longrightarrow> pixelIndex pix (buildIndexMap gk) ix = i + 1)
        \<and> (\<forall>ix. pixelAlpha pix ix \<noteq> 0 \<and> pixelKey pix ix = (r2, g2, b2, a2)
               \<longrightarrow> pixelIndex pix (buildIndexMap gk) ix = j + 1)
        \<and> buildTilePaletteRgb444 gk ! (i + 1) = buildTilePaletteRgb444 gk ! (j + 1))
   \<and> buildTilePaletteRgb444 [(16, 0, 0, 128), (16, 0, 0, 255), (17, 0, 0, 255)] = [0, 1, 1, 1]"
proof (intro conjI impI allI)
  assume "r1 div 16 mod 16 = r2 div 16 mod 16 \<and> g1 div 16 mod 16 = g2 div 16 mod 16
      \<and> b1 div 16 mod 16 = b2 div 16 mod 16"
  then show "rgbToRgb444 r1 g1 b1 = rgbToRgb444 r2 g2 b2"
    by (simp add: rgbToRgb444_arith)
next
  assume a: "(r1, g1, b1, a1) \<noteq> (r2, g2, b2, a2)
       \<and> (r1, g1, b1, a1) \<in> opaqueColors pix w tx ty \<and> (r2, g2, b2, a2) \<in> opaqueColors pix w tx ty"
  note p = tileColors_props[of pix w tx ty]
  from a p obtain i where i: "i < length (tileColors pix w tx ty)"
    "tileColors pix w tx ty ! i = (r1, g1, b1, a1)"
    by (metis in_set_conv_nth)
  from a p obtain j where j: "j < length (tileColors pix w tx ty)"
    "tileColors pix w tx ty ! j = (r2, g2, b2, a2)"
    by (metis in_set_conv_nth)
  from a i j have "i \<noteq> j" by auto
  with i j show "\<exists>i j. i \<noteq> j \<and> i < length (tileColors pix w tx ty) \<and> j < length (tileColors pix w tx ty)
             \<and> tileColors pix w tx ty ! i = (r1, g1, b1, a1)
             \<and> tileColors pix w tx ty ! j = (r2, g2, b2, a2)"
    by blast
next
  fix i j
  assume a: "distinct gk \<and> length gk \<le> 3 \<and> i < length gk \<and> j < length gk \<and> i \<noteq> j
         \<and> gk ! i = (r1, g1, b1, a1) \<and> gk ! j = (r2, g2, b2, a2)
         \<and> r1 div 16 mod 16 = r2 div 16 mod 16 \<and> g1 div 16 mod 16 = g2 div 16 mod 16
         \<and> b1 div 16 mod 16 = b2 div 16 mod 16"
  then have d: "distinct gk" and len: "length gk \<le> 3" and i: "i < length gk" and j: "j < length gk"
    and ne: "i \<noteq> j" and ki: "gk ! i = (r1, g1, b1, a1)" and kj: "gk ! j = (r2, g2, b2, a2)"
    and same: "rgbToRgb444 r1 g1 b1 = rgbToRgb444 r2 g2 b2"
    by (simp_all add: rgbToRgb444_arith)
  from len i have i3: "i + 1 \<le> 3" by simp
  from len j have j3: "j + 1 \<le> 3" by simp
  show "i + 1 \<le> 3" by (rule i3)
  show "j + 1 \<le> 3" by (rule j3)
  show "i + 1 \<noteq> j + 1" using ne by simp
  show "buildIndexMap gk (r1, g1, b1, a1) = Some (i + 1)"
    using buildIndexMap_nth[OF d i] and3_small[OF i3] unfolding ki by simp
  show "buildIndexMap gk (r2, g2, b2, a2) = Some (j + 1)"
    using buildIndexMap_nth[OF d j] and3_small[OF j3] unfolding kj by simp
  show "pixelIndex pix (buildIndexMap gk) ix = i + 1"
    if "pixelAlpha pix ix \<noteq> 0 \<and> pixelKey pix ix = (r1, g1, b1, a1)" for ix
    using that pixelIndex_member[OF d len i, of pix ix] unfolding ki by simp
  show "pixelIndex pix (buildIndexMap gk) ix = j + 1"
    if "pixelAlpha pix ix \<noteq> 0 \<and> pixelKey pix ix = (r2, g2, b2, a2)" for ix
    using that pixelIndex_member[OF d len j, of pix ix] unfolding kj by simp
  from i3 j3 have "i < 3" "j < 3" by simp_all
  then show "buildTilePaletteRgb444 gk ! (i + 1) = buildTilePaletteRgb444 gk ! (j + 1)"
    using palette_slot_value[of i gk] palette_slot_value[of j gk] i j ki kj same
    by (simp add: paletteSlot_def)
next
  show "buildTilePaletteRgb444 [(16, 0, 0, 128), (16, 0, 0, 255), (17, 0, 0, 255)] = [0, 1, 1, 1]"
    by (simp add: buildTilePaletteRgb444_slots paletteSlot_def rgbToRgb444_arith)
qed


theorem duplicate_palette_entries_witness:
  "(16::nat) div 16 mod 16 = 17 div 16 mod 16
   \<and> rgbToRgb444 16 0 0 = rgbToRgb444 17 0 0
   \<and> ((16, 0, 0, 255) :: colorKey) \<noteq> (17, 0, 0, 128)
   \<and> (16, 0, 0, 255) \<in> opaqueColors shadePixels 8 0 0
   \<and> (17, 0, 0, 128) \<in> opaqueColors shadePixels 8 0 0
   \<and> (\<exists>i j. i \<noteq> j \<and> i < length (tileColors shadePixels 8 0 0)
          \<and> j < length (tileColors shadePixels 8 0 0)
          \<and> tileColors shadePixels 8 0 0 ! i = (16, 0, 0, 255)
          \<and> tileColors shadePixels 8 0 0 ! j = (17, 0, 0, 128))
   \<and> distinct [(16, 0, 0, 255), (17, 0, 0, 128) :: colorKey]
   \<and> buildIndexMap [(16, 0, 0, 255), (17, 0, 0, 128)] (16, 0, 0, 255) = Some 1
   \<and> buildIndexMap [(16, 0, 0, 255), (17, 0, 0, 128)] (17, 0, 0, 128) = Some 2
   \<and> buildTilePaletteRgb444 [(16, 0, 0, 255), (17, 0, 0, 128)] ! 1
        = buildTilePaletteRgb444 [(16, 0, 0, 255), (17, 0, 0, 128)] ! 2"
proof -
  let ?gk = "[(16, 0, 0, 255), (17, 0, 0, 128)] :: colorKey list"
  note t = duplicate_palette_entries[where ?r1.0 = 16 and ?g1.0 = 0 and ?b1.0 = 0 and ?a1.0 = 255
      and ?r2.0 = 17 and ?g2.0 = 0 and ?b2.0 = 0 and ?a2.0 = 128
      and pix = shadePixels and w = 8 and tx = 0 and ty = 0 and gk = ?gk]
  have nib: "(16::nat) div 16 mod 16 = 17 div 16 mod 16 \<and> (0::nat) div 16 mod 16 = 0 div 16 mod 16
      \<and> (0::nat) div 16 mod 16 = 0 div 16 mod 16"
    by simp
  note same = t[THEN conjunct1, rule_format, OF nib]
  have mem: "((16, 0, 0, 255) :: colorKey) \<noteq> (17, 0, 0, 128)
       \<and> (16, 0, 0, 255) \<in> opaqueColors shadePixels 8 0 0
       \<and> (17, 0, 0, 128) \<in> opaqueColors shadePixels 8 0 0"
    using shade_members by simp
  note kept = t[THEN conjunct2, THEN conjunct1, rule_format, OF mem]
  have grp: "distinct ?gk \<and> length ?gk \<le> 3 \<and> 0 < length ?gk \<and> Suc 0 < length ?gk \<and> 0 \<noteq> Suc 0
         \<and> ?gk ! 0 = (16, 0, 0, 255) \<and> ?gk ! Suc 0 = (17, 0, 0, 128)
         \<and> (16::nat) div 16 mod 16 = 17 div 16 mod 16 \<and> (0::nat) div 16 mod 16 = 0 div 16 mod 16
         \<and> (0::nat) div 16 mod 16 = 0 div 16 mod 16"
    by simp
  note idx = t[THEN conjunct2, THEN conjunct2, THEN conjunct1, rule_format, OF grp]
  from idx have i1: "buildIndexMap ?gk (16, 0, 0, 255) = Some 1"
    and i2: "buildIndexMap ?gk (17, 0, 0, 128) = Some 2"
    and sl: "buildTilePaletteRgb444 ?gk ! 1 = buildTilePaletteRgb444 ?gk ! 2"
    by (simp_all add: numeral_2_eq_2)
  from nib same mem kept i1 i2 sl show ?thesis by simp
qed

section \<open>Round trip\<close>

lemma samePalette_slot: "samePalette p q \<Longrightarrow> c \<le> 3 \<Longrightarrow> p ! c = q ! c"
proof -
  assume s: "samePalette p q" and "c \<le> 3"
  then consider "c = 0" | "c = 1" | "c = 2" | "c = 3" by linarith
  then show ?thesis using s by cases (simp_all add: samePalette_def)
qed

lemma pixel_in_tile:
  fixes w px :: nat
  assumes "w mod 8 = 0" and "px < w"
  shows "px div 8 < w div 8" and "px mod 8 < 8" and "px div 8 * 8 + px mod 8 = px"
proof -
  have "w div 8 * 8 + w mod 8 = w" by simp
  with assms have "px < w div 8 * 8" by simp
  then show "px div 8 < w div 8" by (simp add: less_mult_imp_div_less)
  show "px mod 8 < 8" by simp
  show "px div 8 * 8 + px mod 8 = px" by simp
qed

text \<open>
  C1. Take a successful encode of a well-formed image with \<open>maxLayers \<ge> 1\<close>, a frame and a
  pixel \<open>(px, py)\<close> of it. Drawing the layers of the output in order over a transparent
  background, each with the palette its tile points to in the layer's bank and with index
  0 leaving what is below untouched, gives nothing (transparent) when the source pixel has
  alpha 0, and otherwise the RGB444 packing of the source pixel's red, green and blue.
\<close>

theorem round_trip:
  assumes "wellFormed img" and "1 \<le> maxL" and "encode img maxL MP = Inr out"
    and "fi < frameCount img" and "px < width img" and "py < height img"
  shows "composite out (tilesX img) fi px py =
     (if pixelAlpha (frames img ! fi) ((py * width img + px) * 4) = 0 then None
      else Some (case pixelKey (frames img ! fi) ((py * width img + px) * 4) of
                   (r, g, b, a) \<Rightarrow> rgbToRgb444 r g b))"
proof -
  let ?pix = "frames img ! fi"
  let ?tx = "px div 8" and ?ty = "py div 8" and ?x = "px mod 8" and ?y = "py mod 8"
  let ?t = "?ty * tilesX img + ?tx"
  let ?lst = "colorsAt img fi ?ty ?tx"
  let ?grp = "\<lambda>l. slice ?lst (l * 3) (l * 3 + 3)"
  let ?n = "outLayerCount out"
  define ix where "ix = (py * width img + px) * 4"
  from assms(3) obtain pl0 where dims: "width img mod 8 = 0" "height img mod 8 = 0"
    and "buildLayeredPlan img (width img div 8) (height img div 8) maxL = Inr pl0"
    by (rule encode_Inr)
  note cx = pixel_in_tile[OF dims(1) assms(5)]
  note cy = pixel_in_tile[OF dims(2) assms(6)]
  have tx: "?tx < tilesX img" and ty: "?ty < tilesY img"
    using cx(1) cy(1) by (simp_all add: tilesX_def tilesY_def)
  have off: "tileOffset (width img) ?tx ?ty ?x ?y = ix"
    unfolding tileOffset_def cx(3) cy(3) ix_def ..
  have off': "((?ty * 8 + ?y) * width img + (?tx * 8 + ?x)) * 4 = ix"
    unfolding cx(3) cy(3) ix_def ..
  have layer: "tilePixel (perLayerTiles out ! l ! fi ! ?t) ?x ?y
        = pixelIndex ?pix (buildIndexMap (?grp l)) ix AND 3
      \<and> samePalette (perLayerPalettes out ! l ! (perLayerPalIdMap out ! l ! fi ! ?t))
           (buildTilePaletteRgb444 (?grp l))"
    if l: "l < ?n" for l
  proof -
    from assms(3,2) l assms(4) ty tx obtain pl where
      pl: "buildLayeredPlan img (tilesX img) (tilesY img) maxL = Inr pl"
      and same: "samePalette (perLayerPalettes out ! l ! (perLayerPalIdMap out ! l ! fi ! ?t))
           (buildTilePaletteRgb444 (groups pl ! l ! fi ! ?t))"
      and bytes: "perLayerTiles out ! l ! fi ! ?t =
           encodeNgpcTile2bppLayered ?pix (width img) (?tx * 8) (?ty * 8) (groups pl ! l ! fi ! ?t)"
      and grp: "groups pl ! l ! fi ! ?t = ?grp l"
      by (rule encode_tile_facts)
    have "tilePixel (perLayerTiles out ! l ! fi ! ?t) ?x ?y
        = pixelIndex ?pix (buildIndexMap (?grp l)) ix AND 3"
      unfolding bytes grp tilePixel_encode[OF cx(2) cy(2)] off' ..
    with same show ?thesis unfolding grp by simp
  qed
  have draw: "drawLayer out fi ?t ?x ?y l =
      (\<lambda>bg. if pixelIndex ?pix (buildIndexMap (?grp l)) ix AND 3 = 0 then bg
            else Some (buildTilePaletteRgb444 (?grp l) ! (pixelIndex ?pix (buildIndexMap (?grp l)) ix AND 3)))"
    if l: "l < ?n" for l
  proof (rule ext)
    fix bg
    have le: "pixelIndex ?pix (buildIndexMap (?grp l)) ix AND 3 \<le> 3"
      unfolding and3 by (simp add: take_bit_eq_mod)
    from layer[OF l] samePalette_slot[OF _ le]
    show "drawLayer out fi ?t ?x ?y l bg =
      (if pixelIndex ?pix (buildIndexMap (?grp l)) ix AND 3 = 0 then bg
       else Some (buildTilePaletteRgb444 (?grp l) ! (pixelIndex ?pix (buildIndexMap (?grp l)) ix AND 3)))"
      unfolding drawLayer_def Let_def by simp
  qed
  have "composite out (tilesX img) fi px py =
     (if pixelAlpha ?pix ix = 0 then None
      else Some (case pixelKey ?pix ix of (r, g, b, a) \<Rightarrow> rgbToRgb444 r g b))"
  proof (cases "pixelAlpha ?pix ix = 0")
    case True
    have "drawLayer out fi ?t ?x ?y l = (\<lambda>bg. bg)" if "l < ?n" for l
      unfolding draw[OF that] by (simp add: pixelIndex_transparent[OF True])
    then have "fold (drawLayer out fi ?t ?x ?y) [0..<?n] None = None"
      by (rule fold_draw_none)
    with True show ?thesis unfolding composite_def by simp
  next
    case False
    let ?k = "pixelKey ?pix ix"
    from False have "?k \<in> opaqueColors ?pix (width img) ?tx ?ty"
      using opaqueColors_member[OF cx(2) cy(2), of ?pix "width img" ?tx ?ty] unfolding off by simp
    then have "?k \<in> set ?lst" unfolding colorsAt_props(1) .
    then obtain p where p: "p < length ?lst" and kp: "?lst ! p = ?k"
      by (auto simp: in_set_conv_nth)
    note d = colorsAt_props(2)[of img fi ?ty ?tx]
    from assms(3) obtain pl where pl: "buildLayeredPlan img (tilesX img) (tilesY img) maxL = Inr pl"
      and cnt: "?n = layerCount pl"
      by (rule encode_layerCount)
    from plan_success(4)[OF pl assms(2) assms(4) ty tx] have "length ?lst \<le> ?n * 3"
      unfolding cnt by (simp add: ceil3_le_iff)
    with p have "p < ?n * 3" by simp
    then have l0: "p div 3 < ?n" by (simp add: less_mult_imp_div_less)
    note own = slice_own[OF p]
    have own_k: "?k = ?grp (p div 3) ! (p mod 3)" unfolding own(2) kp ..
    have len: "length (?grp (p div 3)) \<le> 3" by (simp add: slice_length)
    have dist: "distinct (?grp (p div 3))" by (rule slice_distinct[OF d])
    have idx: "pixelIndex ?pix (buildIndexMap (?grp (p div 3))) ix = p mod 3 + 1"
      by (rule pixelIndex_member[OF dist len own(1) own_k False])
    have "p mod 3 + 1 \<le> 3" by simp
    then have a3: "(p mod 3 + 1) AND 3 = p mod 3 + 1" by (rule and3_small)
    have slot: "buildTilePaletteRgb444 (?grp (p div 3)) ! (p mod 3 + 1)
        = (case ?k of (r, g, b, a) \<Rightarrow> rgbToRgb444 r g b)"
    proof -
      have "p mod 3 < 3" by simp
      from palette_slot_value[OF this, of "?grp (p div 3)"] own(1)
      show ?thesis by (simp add: paletteSlot_def own(2) kp)
    qed
    have hit: "drawLayer out fi ?t ?x ?y (p div 3)
        = (\<lambda>bg. Some (case ?k of (r, g, b, a) \<Rightarrow> rgbToRgb444 r g b))"
      unfolding draw[OF l0] idx a3 slot by simp
    have miss: "drawLayer out fi ?t ?x ?y l = (\<lambda>bg. bg)" if l: "l < ?n" and ne: "l \<noteq> p div 3" for l
    proof -
      from slice_other[OF d p ne] have "?k \<notin> set (?grp l)" unfolding kp .
      then have "pixelIndex ?pix (buildIndexMap (?grp l)) ix = 0" by (rule pixelIndex_masked)
      then show ?thesis unfolding draw[OF l] by simp
    qed
    have "fold (drawLayer out fi ?t ?x ?y) [0..<?n] None
        = Some (case ?k of (r, g, b, a) \<Rightarrow> rgbToRgb444 r g b)"
      by (rule fold_draw_single[where f = "drawLayer out fi ?t ?x ?y" and ?l0.0 = "p div 3", OF l0 hit miss])
    with False show ?thesis unfolding composite_def by simp
  qed
  then show ?thesis unfolding ix_def .
qed


lemma demo_pixel_7_3:
  "pixelAlpha demoPixels 124 = 255"
  "pixelKey demoPixels 124 = (64, 0, 0, 255)"
  "pixelAlpha demoPixels 104 = 0"
  by (simp_all add: pixelAlpha_def pixelKey_def demoPixels_nth demoByte_def rgbaKey_def)

theorem round_trip_witness:
  "wellFormed demoImage \<and> (1::nat) \<le> 3 \<and> encode demoImage 3 16 = Inr demoOut
   \<and> 0 < frameCount demoImage \<and> 7 < width demoImage \<and> 2 < width demoImage \<and> 3 < height demoImage
   \<and> pixelKey (frames demoImage ! 0) ((3 * width demoImage + 7) * 4) = (64, 0, 0, 255)
   \<and> composite demoOut (tilesX demoImage) 0 7 3 = Some (rgbToRgb444 64 0 0)
   \<and> rgbToRgb444 64 0 0 = 4
   \<and> pixelAlpha (frames demoImage ! 0) ((3 * width demoImage + 2) * 4) = 0
   \<and> composite demoOut (tilesX demoImage) 0 2 3 = None"
proof -
  have ml: "(1::nat) \<le> 3" by simp
  have r: "0 < frameCount demoImage" "7 < width demoImage" "2 < width demoImage" "3 < height demoImage"
    by (simp_all add: demo_frameCount demo_frames)
  have k: "pixelKey (frames demoImage ! 0) ((3 * width demoImage + 7) * 4) = (64, 0, 0, 255)"
    and a: "pixelAlpha (frames demoImage ! 0) ((3 * width demoImage + 7) * 4) \<noteq> 0"
    and z: "pixelAlpha (frames demoImage ! 0) ((3 * width demoImage + 2) * 4) = 0"
    by (simp_all add: demo_frames demo_pixel_7_3)
  from round_trip[OF demo_wellFormed ml demo_encode r(1) r(2) r(4)] a
  have c1: "composite demoOut (tilesX demoImage) 0 7 3 = Some (rgbToRgb444 64 0 0)"
    unfolding k by simp
  from round_trip[OF demo_wellFormed ml demo_encode r(1) r(3) r(4)] z
  have c2: "composite demoOut (tilesX demoImage) 0 2 3 = None"
    by simp
  have v: "rgbToRgb444 64 0 0 = 4" by (simp add: rgbToRgb444_arith)
  from demo_wellFormed ml demo_encode r k c1 v z c2 show ?thesis by blast
qed

end
